theory Spec2Isabelle
  imports Main "HOL-Library.Sublist"
begin

section \<open>ticket-amend: a shallow embedding of bin/ticket-amend.js\<close>

text \<open>
  The program is one script: it interprets its arguments, locates the ticket store and
  the ticket file, parses the frontmatter, applies the amendments and writes the file
  back. Every \<^verbatim>\<open>process.exit\<close> of the script is a branch of the model that returns
  an outcome; the file system and the process environment are a record that the model
  reads. A JavaScript string is modelled as a \<^typ>\<open>string\<close> whose characters stand for
  code units below 256, so of the characters that JavaScript treats specially
  (line terminators for \<^verbatim>\<open>.\<close>, white space for \<^verbatim>\<open>trim\<close>) those below 256 are present.
\<close>

subsection \<open>JavaScript values and string operations\<close>

text \<open>
  The option variables of the script start as \<^verbatim>\<open>null\<close>, and \<^verbatim>\<open>args[++i]\<close> past the end
  of the array is \<^verbatim>\<open>undefined\<close>.
\<close>

datatype jsval = Null | Undefined | Str string

text \<open>Interpolation into a template literal, and \<^verbatim>\<open>+\<close> with a string.\<close>

fun to_string :: "jsval \<Rightarrow> string" where
  "to_string Null = ''null''"
| "to_string Undefined = ''undefined''"
| "to_string (Str s) = s"

text \<open>\<^verbatim>\<open>s.startsWith(p)\<close>, \<^verbatim>\<open>s.endsWith(p)\<close> and \<^verbatim>\<open>s.includes(p)\<close>.\<close>

definition startsWith :: "string \<Rightarrow> string \<Rightarrow> bool" where
  "startsWith s p = prefix p s"

definition endsWith :: "string \<Rightarrow> string \<Rightarrow> bool" where
  "endsWith s p = suffix p s"

definition includes_str :: "string \<Rightarrow> string \<Rightarrow> bool" where
  "includes_str s p = sublist p s"

text \<open>
  White space as \<^verbatim>\<open>trim\<close> and \<^verbatim>\<open>trimEnd\<close> see it: tab, line feed, vertical tab, form
  feed, carriage return, space and no-break space.
\<close>

definition is_ws :: "char \<Rightarrow> bool" where
  "is_ws c = (c \<in> set [CHR 0x09, CHR 0x0A, CHR 0x0B, CHR 0x0C, CHR 0x0D, CHR 0x20, CHR 0xA0])"

definition trimStart :: "string \<Rightarrow> string" where
  "trimStart s = dropWhile is_ws s"

definition trimEnd :: "string \<Rightarrow> string" where
  "trimEnd s = rev (dropWhile is_ws (rev s))"

definition trim :: "string \<Rightarrow> string" where
  "trim s = trimEnd (trimStart s)"

text \<open>\<^verbatim>\<open>s.split(c)\<close> for a one-character separator: never the empty array.\<close>

fun split :: "char \<Rightarrow> string \<Rightarrow> string list" where
  "split c [] = [[]]"
| "split c (x # xs) =
     (if x = c then [] # split c xs
      else (case split c xs of [] \<Rightarrow> [[x]] | r # rs \<Rightarrow> (x # r) # rs))"

text \<open>\<^verbatim>\<open>xs.join(sep)\<close>.\<close>

fun join :: "string \<Rightarrow> string list \<Rightarrow> string" where
  "join sep [] = []"
| "join sep [x] = x"
| "join sep (x # y # ys) = x @ sep @ join sep (y # ys)"

subsection \<open>Outcomes of one invocation\<close>

text \<open>
  The ticket directory is either the value of \<^verbatim>\<open>TICKETS_DIR\<close> or the directory found by
  walking up from the working directory, whose path is kept as its list of components
  below the root. A file of the store is \<^verbatim>\<open>path.join(ticketsDir, name)\<close>, kept as the pair.
\<close>

datatype tdir = EnvDir string | Walked "string list"

type_synonym ticket_file = "tdir \<times> string"

text \<open>
  One constructor for each \<^verbatim>\<open>console.error\<close> followed by \<^verbatim>\<open>process.exit(1)\<close>:
  \<^item> \<open>UnknownOption a\<close>: ``Unknown option: a'';
  \<^item> \<open>MissingId\<close>: ``Error: ticket ID is required'';
  \<^item> \<open>NoTicketsDir\<close>: ``Error: no .tickets directory found (searched parent directories)'';
  \<^item> \<open>CannotRead d\<close>: ``Error: cannot read d'';
  \<^item> \<open>Ambiguous i\<close>: ``Error: ambiguous ID 'i' matches multiple tickets'';
  \<^item> \<open>NotFound i\<close>: ``Error: ticket 'i' not found'';
  \<^item> \<open>NoFrontmatter\<close>: ``Error: ticket has no valid frontmatter'';
  \<^item> \<open>NothingToAmend\<close>: ``Nothing to amend (no options provided)''.
\<close>

datatype error =
    UnknownOption string
  | MissingId
  | NoTicketsDir
  | CannotRead tdir
  | Ambiguous string
  | NotFound string
  | NoFrontmatter
  | NothingToAmend

text \<open>
  \<^verbatim>\<open>fs.writeFileSync(file, data)\<close> opens the file for writing, which empties it, and then
  writes the data. It returns, or it throws: before the file is opened, and the file is
  as it was (\<open>WriteFails None\<close>), or after, and the file is left with what was written
  so far (\<open>WriteFails (Some p)\<close>).
\<close>

datatype write_result = WriteOk | WriteFails "string option"

text \<open>
  What one run does: print a text and exit 0; print an error and exit 1; die of an
  uncaught exception (a \<^verbatim>\<open>TypeError\<close> on \<^verbatim>\<open>undefined\<close>, or a failing read); or call
  \<^verbatim>\<open>writeFileSync\<close> once with the whole new content. When the call returns the run
  reports the ticket and exits 0 (\<open>Wrote file content message\<close>); when it throws, the
  exception is not caught and the run dies (\<open>WriteFailed file content left\<close>).
\<close>

datatype outcome =
    Printed string
  | Fatal error
  | Crash
  | Wrote ticket_file string string
  | WriteFailed ticket_file string "string option"

fun exit_status :: "outcome \<Rightarrow> nat" where
  "exit_status (Printed t) = 0"
| "exit_status (Fatal e) = 1"
| "exit_status Crash = 1"
| "exit_status (Wrote f c m) = 0"
| "exit_status (WriteFailed f c left) = 1"

text \<open>The calls of \<^verbatim>\<open>writeFileSync\<close> made by a run: the file and the data.\<close>

fun write_calls :: "outcome \<Rightarrow> (ticket_file \<times> string) list" where
  "write_calls (Wrote f c m) = [(f, c)]"
| "write_calls (WriteFailed f c left) = [(f, c)]"
| "write_calls (Printed t) = []"
| "write_calls (Fatal e) = []"
| "write_calls Crash = []"

text \<open>The files that a run leaves with a new content, and that content.\<close>

fun writes :: "outcome \<Rightarrow> (ticket_file \<times> string) list" where
  "writes (Wrote f c m) = [(f, c)]"
| "writes (WriteFailed f c None) = []"
| "writes (WriteFailed f c (Some p)) = [(f, p)]"
| "writes (Printed t) = []"
| "writes (Fatal e) = []"
| "writes Crash = []"

subsection \<open>Argument interpreter\<close>

definition describe_line :: string where
  "describe_line = ''tk-plugin: Amend fields on an existing ticket''"

definition usage :: string where
  "usage = join ''\<newline>''
     [''Usage: ticket-amend <id> [options]'',
      '''',
      ''Amend fields on an existing ticket.'',
      '''',
      ''Options:'',
      ''  -d, --description TEXT    Append to description'',
      ''  -t, --type TYPE           Set type (bug, feature, task, epic, chore)'',
      ''  -p, --priority NUM        Set priority (0-4)'',
      ''  -a, --assignee NAME       Set assignee'',
      ''  --external-ref REF        Set external reference'',
      ''  --parent ID               Set parent ticket'',
      ''  --tags TAG1,TAG2          Append tags'',
      ''  -h, --help                Show this help'']"

text \<open>The variables \<^verbatim>\<open>id\<close>, \<^verbatim>\<open>description\<close>, ..., \<^verbatim>\<open>tags\<close> that the loop fills.\<close>

record request =
  id_arg :: jsval
  description :: jsval
  type_arg :: jsval
  priority :: jsval
  assignee :: jsval
  externalRef :: jsval
  parent :: jsval
  tags :: jsval

definition no_request :: request where
  "no_request = \<lparr>id_arg = Null, description = Null, type_arg = Null, priority = Null,
     assignee = Null, externalRef = Null, parent = Null, tags = Null\<rparr>"

text \<open>The \<^verbatim>\<open>case\<close> labels of the \<^verbatim>\<open>switch\<close>, and the variable each one assigns.\<close>

datatype flag = FDescription | FType | FPriority | FAssignee | FExternalRef | FParent | FTags

definition flag_of :: "string \<Rightarrow> flag option" where
  "flag_of a =
     (if a = ''-d'' \<or> a = ''--description'' then Some FDescription
      else if a = ''-t'' \<or> a = ''--type'' then Some FType
      else if a = ''-p'' \<or> a = ''--priority'' then Some FPriority
      else if a = ''-a'' \<or> a = ''--assignee'' then Some FAssignee
      else if a = ''--external-ref'' then Some FExternalRef
      else if a = ''--parent'' then Some FParent
      else if a = ''--tags'' then Some FTags
      else None)"

fun assign :: "flag \<Rightarrow> jsval \<Rightarrow> request \<Rightarrow> request" where
  "assign FDescription v r = r\<lparr>description := v\<rparr>"
| "assign FType v r = r\<lparr>type_arg := v\<rparr>"
| "assign FPriority v r = r\<lparr>priority := v\<rparr>"
| "assign FAssignee v r = r\<lparr>assignee := v\<rparr>"
| "assign FExternalRef v r = r\<lparr>externalRef := v\<rparr>"
| "assign FParent v r = r\<lparr>parent := v\<rparr>"
| "assign FTags v r = r\<lparr>tags := v\<rparr>"

text \<open>\<^verbatim>\<open>!v\<close> for the values that occur: \<^verbatim>\<open>null\<close>, \<^verbatim>\<open>undefined\<close> and the empty string.\<close>

fun falsy :: "jsval \<Rightarrow> bool" where
  "falsy Null = True"
| "falsy Undefined = True"
| "falsy (Str s) = (s = [])"

text \<open>
  The \<^verbatim>\<open>for\<close> loop over \<^verbatim>\<open>args\<close>, on the tokens from index \<^verbatim>\<open>i\<close> on. A flag takes
  \<^verbatim>\<open>args[++i]\<close> whatever it is, \<^verbatim>\<open>undefined\<close> when the flag is the last token. Any other
  token that starts with \<^verbatim>\<open>-\<close> ends the run; the first other token that finds \<^verbatim>\<open>id\<close>
  falsy becomes the identifier.
\<close>

fun arg_loop :: "string list \<Rightarrow> request \<Rightarrow> error + request" where
  "arg_loop [] r = Inr r"
| "arg_loop (a # rest) r =
     (case flag_of a of
        Some f \<Rightarrow>
          (case rest of
             [] \<Rightarrow> Inr (assign f Undefined r)
           | v # rest' \<Rightarrow> arg_loop rest' (assign f (Str v) r))
      | None \<Rightarrow>
          if startsWith a ''-'' then Inl (UnknownOption a)
          else arg_loop rest (if falsy (id_arg r) then r\<lparr>id_arg := Str a\<rparr> else r))"

text \<open>
  The start of the script up to the check of \<^verbatim>\<open>id\<close>: the discovery flag first, then
  help, then the loop. \<open>Inl\<close> is an outcome that ends the run.
\<close>

definition interpret_args :: "string list \<Rightarrow> outcome + request" where
  "interpret_args args =
     (if ''--tk-describe'' \<in> set args then Inl (Printed describe_line)
      else if ''-h'' \<in> set args \<or> ''--help'' \<in> set args \<or> length args = 0
        then Inl (Printed usage)
      else (case arg_loop args no_request of
              Inl e \<Rightarrow> Inl (Fatal e)
            | Inr r \<Rightarrow> if falsy (id_arg r) then Inl (Fatal MissingId) else Inr r))"

subsection \<open>Ticket locator\<close>

text \<open>
  The surroundings of the script, fixed for the run (all reads come before the one
  write):
  \<^item> \<open>env_TICKETS_DIR\<close>: \<^verbatim>\<open>process.env.TICKETS_DIR\<close>, \<open>None\<close> when the variable is unset;
  \<^item> \<open>cwd\<close>: \<^verbatim>\<open>process.cwd()\<close>, an absolute path, as its components below the root, so
    that \<^verbatim>\<open>path.dirname\<close> is \<^const>\<open>butlast\<close> (the root is its own parent) and
    \<^verbatim>\<open>path.join(dir, '.tickets')\<close> appends a component;
  \<^item> \<open>is_directory p\<close>: \<^verbatim>\<open>fs.existsSync(p) && fs.statSync(p).isDirectory()\<close>;
  \<^item> \<open>existsSync\<close>, \<open>readdirSync\<close>, \<open>readFileSync\<close>: the calls of \<^verbatim>\<open>fs\<close> on the ticket
    directory and its files, \<open>None\<close> where the call throws;
  \<^item> \<open>writeFileSync f data\<close>: what the call \<^verbatim>\<open>fs.writeFileSync(f, data, 'utf8')\<close> will do;
  \<^item> \<open>basename_md f\<close>: \<^verbatim>\<open>path.basename(f, '.md')\<close>.
\<close>

record sys =
  env_TICKETS_DIR :: "string option"
  cwd :: "string list"
  is_directory :: "string list \<Rightarrow> bool"
  existsSync :: "ticket_file \<Rightarrow> bool"
  readdirSync :: "tdir \<Rightarrow> string list option"
  readFileSync :: "ticket_file \<Rightarrow> string option"
  writeFileSync :: "ticket_file \<Rightarrow> string \<Rightarrow> write_result"
  basename_md :: "ticket_file \<Rightarrow> string"

text \<open>The \<^verbatim>\<open>while (true)\<close> loop of \<^verbatim>\<open>findTicketsDir\<close>, from \<^verbatim>\<open>dir\<close> upwards.\<close>

function walk_up :: "(string list \<Rightarrow> bool) \<Rightarrow> string list \<Rightarrow> error + tdir" where
  "walk_up isdir dir =
     (let candidate = dir @ [''.tickets''] in
      if isdir candidate then Inr (Walked candidate)
      else (let parent_dir = butlast dir in
            if parent_dir = dir then Inl NoTicketsDir
            else walk_up isdir parent_dir))"
  by pat_completeness auto

termination
  by (relation "measure (\<lambda>(isdir, dir). length dir)") (auto simp: butlast_conv_take)

declare walk_up.simps [simp del]

text \<open>\<^verbatim>\<open>if (envDir) return envDir\<close>: an unset variable and an empty one are both falsy.\<close>

definition findTicketsDir :: "sys \<Rightarrow> error + tdir" where
  "findTicketsDir s =
     (case env_TICKETS_DIR s of
        Some envDir \<Rightarrow>
          if envDir \<noteq> [] then Inr (EnvDir envDir)
          else walk_up (is_directory s) (cwd s)
      | None \<Rightarrow> walk_up (is_directory s) (cwd s))"

definition resolveTicket :: "sys \<Rightarrow> tdir \<Rightarrow> string \<Rightarrow> error + ticket_file" where
  "resolveTicket s ticketsDir i =
     (let exact = (ticketsDir, trim i @ ''.md'') in
      if existsSync s exact then Inr exact
      else (case readdirSync s ticketsDir of
              None \<Rightarrow> Inl (CannotRead ticketsDir)
            | Some entries \<Rightarrow>
                (let matches = filter (\<lambda>f. endsWith f ''.md'' \<and> includes_str f (trim i)) entries in
                 if length matches = 1 then Inr (ticketsDir, hd matches)
                 else if length matches > 1 then Inl (Ambiguous i)
                 else Inl (NotFound i))))"

subsection \<open>Frontmatter engine\<close>

text \<open>
  \<^verbatim>\<open>content.match(/^---\n([\s\S]*?)\n---\n([\s\S]*)$/)\<close>: after the opening line the lazy
  group ends at the first place where the closing line follows, and the second group is
  all the rest.
\<close>

fun find_close :: "string \<Rightarrow> (string \<times> string) option" where
  "find_close [] = None"
| "find_close (c # cs) =
     (if startsWith (c # cs) ''\<newline>---\<newline>'' then Some ([], drop 5 (c # cs))
      else (case find_close cs of
              None \<Rightarrow> None
            | Some (fm, body) \<Rightarrow> Some (c # fm, body)))"

definition load :: "string \<Rightarrow> (string \<times> string) option" where
  "load content =
     (if startsWith content ''---\<newline>'' then find_close (drop 4 content) else None)"

text \<open>An entry of \<^verbatim>\<open>fields\<close>: \<^verbatim>\<open>{ key, value }\<close> or \<^verbatim>\<open>{ raw }\<close>.\<close>

datatype field = KV string string | Raw string

definition is_lower :: "char \<Rightarrow> bool" where
  "is_lower c = (97 \<le> (of_char c :: nat) \<and> (of_char c :: nat) \<le> 122)"

definition is_digit :: "char \<Rightarrow> bool" where
  "is_digit c = (48 \<le> (of_char c :: nat) \<and> (of_char c :: nat) \<le> 57)"

definition is_key_char :: "char \<Rightarrow> bool" where
  "is_key_char c = (is_lower c \<or> is_digit c \<or> c = CHR ''-'')"

text \<open>The characters that \<^verbatim>\<open>.\<close> does not match.\<close>

definition is_line_terminator :: "char \<Rightarrow> bool" where
  "is_line_terminator c = (c = CHR 0x0A \<or> c = CHR 0x0D)"

text \<open>
  \<^verbatim>\<open>line.match(/^([a-z][a-z0-9-]*): ?(.*)$/)\<close>. The colon is no key character, so the key
  is the longest run of key characters at the start; one space after the colon is
  skipped when it is there; the rest, up to the end of the line, is the value and must
  hold no line terminator.
\<close>

definition parse_line :: "string \<Rightarrow> field" where
  "parse_line line =
     (let k = takeWhile is_key_char line; r = dropWhile is_key_char line in
      if k \<noteq> [] \<and> is_lower (hd k) \<and> startsWith r '':''
         \<and> \<not> list_ex is_line_terminator (tl r)
      then KV k (if startsWith (tl r) '' '' then tl (tl r) else tl r)
      else Raw line)"

definition parse_frontmatter :: "string \<Rightarrow> field list" where
  "parse_frontmatter frontmatterRaw = map parse_line (split CHR ''\<newline>'' frontmatterRaw)"

fun getField :: "string \<Rightarrow> field list \<Rightarrow> string option" where
  "getField k [] = None"
| "getField k (KV k' v # fs) = (if k' = k then Some v else getField k fs)"
| "getField k (Raw l # fs) = getField k fs"

fun setField :: "string \<Rightarrow> string \<Rightarrow> field list \<Rightarrow> field list" where
  "setField k v [] = [KV k v]"
| "setField k v (KV k' v' # fs) = (if k' = k then KV k' v # fs else KV k' v' # setField k v fs)"
| "setField k v (Raw l # fs) = Raw l # setField k v fs"

text \<open>One line of the new frontmatter: \<^verbatim>\<open>f.raw !== undefined ? f.raw : `${f.key}: ${f.value}`\<close>.\<close>

fun render :: "field \<Rightarrow> string" where
  "render (KV k v) = k @ '': '' @ v"
| "render (Raw l) = l"

definition serialize :: "field list \<Rightarrow> string \<Rightarrow> string" where
  "serialize flds newBody =
     ''---\<newline>'' @ join ''\<newline>'' (map render flds) @ ''\<newline>---\<newline>'' @ newBody"

subsection \<open>Amendments\<close>

text \<open>
  The state of the amendment phase: \<^verbatim>\<open>fields\<close> and \<^verbatim>\<open>changed\<close>. A value set by
  \<^verbatim>\<open>setField\<close> is only ever read back by the template literal of the serializer, so the
  model stores its string form at once.
\<close>

type_synonym amend_state = "field list \<times> bool"

definition replace_block :: "string \<Rightarrow> jsval \<Rightarrow> amend_state \<Rightarrow> amend_state" where
  "replace_block k v st =
     (case st of (flds, changed) \<Rightarrow>
        if v \<noteq> Null then (setField k (to_string v) flds, True) else (flds, changed))"

definition parent_block :: "sys \<Rightarrow> tdir \<Rightarrow> jsval \<Rightarrow> amend_state \<Rightarrow> outcome + amend_state" where
  "parent_block s ticketsDir v st =
     (case st of (flds, changed) \<Rightarrow>
        (case v of
           Null \<Rightarrow> Inr (flds, changed)
         | Undefined \<Rightarrow> Inl Crash
         | Str p \<Rightarrow>
             (case resolveTicket s ticketsDir p of
                Inl e \<Rightarrow> Inl (Fatal e)
              | Inr parentFile \<Rightarrow> Inr (setField ''parent'' (basename_md s parentFile) flds, True))))"

text \<open>\<^verbatim>\<open>existing.replace(/^\[|\]$/g, '')\<close>: an opening bracket at the start and a closing one at the end.\<close>

definition strip_brackets :: "string \<Rightarrow> string" where
  "strip_brackets s =
     (let s1 = (if startsWith s ''['' then tl s else s) in
      if endsWith s1 '']'' then butlast s1 else s1)"

text \<open>\<^verbatim>\<open>.split(',').map((t) => t.trim()).filter(Boolean)\<close>.\<close>

definition tokens :: "string \<Rightarrow> string list" where
  "tokens s = filter (\<lambda>t. t \<noteq> []) (map trim (split CHR '','' s))"

definition parse_existing :: "string option \<Rightarrow> string list" where
  "parse_existing existing =
     (case existing of
        None \<Rightarrow> []
      | Some e \<Rightarrow> if e \<noteq> [] then tokens (strip_brackets e) else [])"

text \<open>\<^verbatim>\<open>if (!existingTags.includes(t)) existingTags.push(t)\<close>, for each new tag in turn.\<close>

definition push_new :: "string list \<Rightarrow> string \<Rightarrow> string list" where
  "push_new existingTags t = (if t \<in> set existingTags then existingTags else existingTags @ [t])"

definition append_tags :: "string list \<Rightarrow> string list \<Rightarrow> string list" where
  "append_tags existingTags newTags = foldl push_new existingTags newTags"

definition encode_tags :: "string list \<Rightarrow> string" where
  "encode_tags ts = ''['' @ join '', '' ts @ '']''"

definition tags_block :: "jsval \<Rightarrow> amend_state \<Rightarrow> outcome + amend_state" where
  "tags_block v st =
     (case st of (flds, changed) \<Rightarrow>
        (case v of
           Null \<Rightarrow> Inr (flds, changed)
         | Undefined \<Rightarrow> Inl Crash
         | Str t \<Rightarrow>
             Inr (setField ''tags''
                    (encode_tags (append_tags (parse_existing (getField ''tags'' flds)) (tokens t)))
                    flds, True)))"

definition description_block :: "jsval \<Rightarrow> string \<Rightarrow> string" where
  "description_block v body =
     (if v \<noteq> Null then trimEnd body @ ''\<newline>\<newline>'' @ to_string v @ ''\<newline>'' else body)"

text \<open>
  The last three statements: \<^verbatim>\<open>fs.writeFileSync(ticketFile, output, 'utf8')\<close>, not in a
  \<^verbatim>\<open>try\<close>, and the report of the ticket when the call has returned.
\<close>

definition write_back :: "sys \<Rightarrow> ticket_file \<Rightarrow> string \<Rightarrow> outcome" where
  "write_back s ticketFile output =
     (case writeFileSync s ticketFile output of
        WriteOk \<Rightarrow> Wrote ticketFile output (''Amended '' @ basename_md s ticketFile)
      | WriteFails left \<Rightarrow> WriteFailed ticketFile output left)"

text \<open>
  The script from \<^verbatim>\<open>let changed = false\<close> to its end, on the parsed fields and the
  body of \<^verbatim>\<open>ticketFile\<close>.
\<close>

definition amend :: "sys \<Rightarrow> tdir \<Rightarrow> ticket_file \<Rightarrow> request \<Rightarrow> field list \<Rightarrow> string \<Rightarrow> outcome" where
  "amend s ticketsDir ticketFile r fields0 body =
     (let st1 = replace_block ''type'' (type_arg r) (fields0, False);
          st2 = replace_block ''priority'' (priority r) st1;
          st3 = replace_block ''assignee'' (assignee r) st2;
          st4 = replace_block ''external-ref'' (externalRef r) st3
      in case parent_block s ticketsDir (parent r) st4 of
           Inl out \<Rightarrow> out
         | Inr st5 \<Rightarrow>
             (case tags_block (tags r) st5 of
                Inl out \<Rightarrow> out
              | Inr (flds, changed6) \<Rightarrow>
                  (let newBody = description_block (description r) body;
                       changed = (changed6 \<or> description r \<noteq> Null)
                   in if \<not> changed then Fatal NothingToAmend
                      else write_back s ticketFile (serialize flds newBody))))"

text \<open>The whole script.\<close>

definition main :: "sys \<Rightarrow> string list \<Rightarrow> outcome" where
  "main s args =
     (case interpret_args args of
        Inl out \<Rightarrow> out
      | Inr r \<Rightarrow>
          (case findTicketsDir s of
             Inl e \<Rightarrow> Fatal e
           | Inr ticketsDir \<Rightarrow>
               (case resolveTicket s ticketsDir (to_string (id_arg r)) of
                  Inl e \<Rightarrow> Fatal e
                | Inr ticketFile \<Rightarrow>
                    (case readFileSync s ticketFile of
                       None \<Rightarrow> Crash
                     | Some content \<Rightarrow>
                         (case load content of
                            None \<Rightarrow> Fatal NoFrontmatter
                          | Some (frontmatterRaw, body) \<Rightarrow>
                              amend s ticketsDir ticketFile r
                                (parse_frontmatter frontmatterRaw) body)))))"

subsection \<open>Vocabulary of the properties and an example store\<close>

text \<open>The flags of the \<^verbatim>\<open>switch\<close> that take \<^verbatim>\<open>args[++i]\<close> as their value.\<close>

definition value_flags :: "string list" where
  "value_flags = [''-d'', ''--description'', ''-t'', ''--type'', ''-p'', ''--priority'',
     ''-a'', ''--assignee'', ''--external-ref'', ''--parent'', ''--tags'']"

text \<open>
  A list of tokens that the loop reads to its end with no flag left waiting: read from
  the left, every flag has a token behind it, which it takes.
\<close>

fun settled :: "string list \<Rightarrow> bool" where
  "settled [] = True"
| "settled (a # rest) =
     (case flag_of a of
        Some f \<Rightarrow> (case rest of [] \<Rightarrow> False | v # rest' \<Rightarrow> settled rest')
      | None \<Rightarrow> settled rest)"

text \<open>A request with no amending option: all option variables are still \<^verbatim>\<open>null\<close>.\<close>

definition no_options :: "request \<Rightarrow> bool" where
  "no_options r =
     (description r = Null \<and> type_arg r = Null \<and> priority r = Null \<and> assignee r = Null
      \<and> externalRef r = Null \<and> parent r = Null \<and> tags r = Null)"






text \<open>
  A request that appends a description and asks for nothing else.
\<close>

definition only_description :: "string \<Rightarrow> request \<Rightarrow> bool" where
  "only_description text r =
     (description r = Str text \<and> type_arg r = Null \<and> priority r = Null \<and> assignee r = Null
      \<and> externalRef r = Null \<and> parent r = Null \<and> tags r = Null)"

text \<open>
  The machine after a run: a file that the run left with a new content, whole or
  not, now reads as that content; everything else is as before.
\<close>

definition after_run :: "sys \<Rightarrow> outcome \<Rightarrow> sys" where
  "after_run s out =
     s\<lparr>readFileSync := (\<lambda>f. case map_of (writes out) f of
                                Some c \<Rightarrow> Some c
                              | None \<Rightarrow> readFileSync s f)\<rparr>"

text \<open>
  A tag list as the program writes it: every token non-empty, trimmed and without a
  comma.
\<close>

definition tag_list :: "string list \<Rightarrow> bool" where
  "tag_list ts = list_all (\<lambda>t. t \<noteq> [] \<and> trim t = t \<and> CHR '','' \<notin> set t) ts"

text \<open>
  A store in the layout of the repository's tests: two tickets in \<^verbatim>\<open>/proj/.tickets\<close>, the
  working directory two levels below \<^verbatim>\<open>/proj\<close>. The first ticket has a field with a
  block value: the line of its key ends with the colon, the line below is indented.
\<close>

definition demo_files :: "(string \<times> string) list" where
  "demo_files =
     [(''ab-1234.md'',
       ''---\<newline>id: ab-1234\<newline>status: open\<newline>deps:\<newline>  - cd-5678\<newline>priority: 2\<newline>tags: [backend, api]\<newline>---\<newline># Title\<newline>\<newline>Text\<newline>''),
      (''cd-5678.md'', ''---\<newline>id: cd-5678\<newline>---\<newline>body'')]"

text \<open>\<^verbatim>\<open>path.basename(f, '.md')\<close> for a file name with no directory part.\<close>

definition basename_plain :: "ticket_file \<Rightarrow> string" where
  "basename_plain f =
     (let n = snd f in
      if endsWith n ''.md'' \<and> length n > 3 then take (length n - 3) n else n)"

definition demo_sys :: "string option \<Rightarrow> sys" where
  "demo_sys e =
     \<lparr>env_TICKETS_DIR = e, cwd = [''proj'', ''src'', ''deep''],
      is_directory = (\<lambda>p. p = [''proj'', ''.tickets'']),
      existsSync = (\<lambda>f. snd f \<in> set (map fst demo_files)),
      readdirSync = (\<lambda>d. Some (map fst demo_files)),
      readFileSync = (\<lambda>f. map_of demo_files (snd f)),
      writeFileSync = (\<lambda>f data. WriteOk),
      basename_md = basename_plain\<rparr>"

text \<open>The same store on a disk that is full: a write empties the file and then fails.\<close>

definition full_disk_sys :: sys where
  "full_disk_sys = (demo_sys None)\<lparr>writeFileSync := (\<lambda>f data. WriteFails (Some []))\<rparr>"

text \<open>A machine with no ticket store anywhere and no override.\<close>

definition bare_sys :: sys where
  "bare_sys =
     \<lparr>env_TICKETS_DIR = None, cwd = [''tmp'', ''work''],
      is_directory = (\<lambda>p. False),
      existsSync = (\<lambda>f. False),
      readdirSync = (\<lambda>d. None),
      readFileSync = (\<lambda>f. None),
      writeFileSync = (\<lambda>f data. WriteFails None),
      basename_md = basename_plain\<rparr>"

section \<open>Properties of the argument interpreter\<close>

text \<open>
  C1. The README documents repeatable \<^verbatim>\<open>--set KEY=VALUE\<close> and \<^verbatim>\<open>--append KEY=VALUE\<close>.
  The argument loop has no case for either: both reach the default branch, start with
  \<^verbatim>\<open>-\<close>, and end the run with ``Unknown option'' and exit status 1, whatever the store.
\<close>

theorem set_and_append_rejected:
  "main s [''ab-1234'', ''--set'', ''status=closed''] = Fatal (UnknownOption ''--set'')
   \<and> main s [''ab-1234'', ''--append'', ''deps=cd-5678''] = Fatal (UnknownOption ''--append'')
   \<and> exit_status (Fatal (UnknownOption ''--set'')) = 1"
  by (simp add: main_def interpret_args_def flag_of_def startsWith_def no_request_def)

text \<open>
  C9. With the discovery flag anywhere in the arguments the run prints the descriptor,
  one line, and exits 0, on every machine: nothing of the store is read. Without it,
  no argument at all or a help flag anywhere prints the usage text and exits 0.
\<close>

theorem discovery_and_help:
  "(''--tk-describe'' \<in> set args \<longrightarrow> main s args = Printed describe_line)
   \<and> (''--tk-describe'' \<notin> set args \<and> (args = [] \<or> ''-h'' \<in> set args \<or> ''--help'' \<in> set args)
        \<longrightarrow> main s args = Printed usage)
   \<and> exit_status (Printed describe_line) = 0 \<and> exit_status (Printed usage) = 0
   \<and> CHR ''\<newline>'' \<notin> set describe_line"
  by (auto simp add: main_def interpret_args_def describe_line_def)

theorem discovery_and_help_witness:
  "''--tk-describe'' \<in> set [''ab-1234'', ''-t'', ''--tk-describe'']
   \<and> main bare_sys [''ab-1234'', ''-t'', ''--tk-describe''] = Printed describe_line
   \<and> findTicketsDir bare_sys = Inl NoTicketsDir
   \<and> ''--tk-describe'' \<notin> set [''ab-1234'', ''--help'']
   \<and> main bare_sys [''ab-1234'', ''--help''] = Printed usage
   \<and> main bare_sys [] = Printed usage"
proof -
  have "findTicketsDir bare_sys = Inl NoTicketsDir"
    by code_simp
  then show ?thesis
    using discovery_and_help [of "[''ab-1234'', ''-t'', ''--tk-describe'']" bare_sys]
      discovery_and_help [of "[''ab-1234'', ''--help'']" bare_sys]
      discovery_and_help [of "[]" bare_sys]
    by simp
qed

lemma arg_loop_settled:
  "settled pre \<Longrightarrow> arg_loop pre r = Inr r1 \<Longrightarrow> arg_loop (pre @ rest) r = arg_loop rest r1"
  by (induction pre r rule: arg_loop.induct) (auto split: option.splits list.splits if_splits)

text \<open>
  C10, as the code has it. Take an argument list with no \<^verbatim>\<open>-h\<close>, \<^verbatim>\<open>--help\<close> or
  \<^verbatim>\<open>--tk-describe\<close> token, and in it a value-taking flag that the loop reads as a flag:
  the tokens before it are read to their end, none of them an unknown option and the
  last of them not a flag that takes this one as its value. Then the token after the
  flag is stored in the variable of that flag, whatever its text, and in no other
  variable: the identifier is as it was before, and the loop goes on with the tokens
  behind the value. When the value is the last token the run goes on to the check of
  the identifier with that request.
\<close>

theorem value_token_consumed:
  assumes "a \<in> set value_flags"
    and "settled pre" and "arg_loop pre no_request = Inr r1"
    and "''--tk-describe'' \<notin> set (pre @ a # v # rest)"
    and "''-h'' \<notin> set (pre @ a # v # rest)" and "''--help'' \<notin> set (pre @ a # v # rest)"
  shows "let r2 = (if a = ''-d'' \<or> a = ''--description'' then r1\<lparr>description := Str v\<rparr>
                   else if a = ''-t'' \<or> a = ''--type'' then r1\<lparr>type_arg := Str v\<rparr>
                   else if a = ''-p'' \<or> a = ''--priority'' then r1\<lparr>priority := Str v\<rparr>
                   else if a = ''-a'' \<or> a = ''--assignee'' then r1\<lparr>assignee := Str v\<rparr>
                   else if a = ''--external-ref'' then r1\<lparr>externalRef := Str v\<rparr>
                   else if a = ''--parent'' then r1\<lparr>parent := Str v\<rparr>
                   else r1\<lparr>tags := Str v\<rparr>)
         in id_arg r2 = id_arg r1
            \<and> arg_loop (pre @ a # v # rest) no_request = arg_loop rest r2
            \<and> interpret_args (pre @ a # v # rest)
                = (case arg_loop rest r2 of
                     Inl e \<Rightarrow> Inl (Fatal e)
                   | Inr r \<Rightarrow> if falsy (id_arg r) then Inl (Fatal MissingId) else Inr r)
            \<and> arg_loop (pre @ [a, v]) no_request = Inr r2
            \<and> interpret_args (pre @ [a, v])
                = (if falsy (id_arg r1) then Inl (Fatal MissingId) else Inr r2)"
proof -
  let ?r2 = "if a = ''-d'' \<or> a = ''--description'' then r1\<lparr>description := Str v\<rparr>
             else if a = ''-t'' \<or> a = ''--type'' then r1\<lparr>type_arg := Str v\<rparr>
             else if a = ''-p'' \<or> a = ''--priority'' then r1\<lparr>priority := Str v\<rparr>
             else if a = ''-a'' \<or> a = ''--assignee'' then r1\<lparr>assignee := Str v\<rparr>
             else if a = ''--external-ref'' then r1\<lparr>externalRef := Str v\<rparr>
             else if a = ''--parent'' then r1\<lparr>parent := Str v\<rparr>
             else r1\<lparr>tags := Str v\<rparr>"
  from assms(1) obtain fl where fl: "flag_of a = Some fl" and as: "assign fl (Str v) r1 = ?r2"
    by (auto simp add: value_flags_def flag_of_def)
  have i: "id_arg ?r2 = id_arg r1" by simp
  have step: "arg_loop (a # v # rest') r1 = arg_loop rest' ?r2" for rest'
    using fl as by simp
  have l: "arg_loop (pre @ a # v # rest') no_request = arg_loop rest' ?r2" for rest'
    using arg_loop_settled [OF assms(2,3), of "a # v # rest'"] step by simp
  have l0: "arg_loop (pre @ [a, v]) no_request = Inr ?r2"
    using l [of "[]"] by simp
  have n: "''--tk-describe'' \<notin> set (pre @ [a, v])" "''-h'' \<notin> set (pre @ [a, v])"
    "''--help'' \<notin> set (pre @ [a, v])"
    using assms(4,5,6) by auto
  have ia: "interpret_args (pre @ a # v # rest)
      = (case arg_loop rest ?r2 of
           Inl e \<Rightarrow> Inl (Fatal e)
         | Inr r \<Rightarrow> if falsy (id_arg r) then Inl (Fatal MissingId) else Inr r)"
    using assms(4,5,6) by (simp only: interpret_args_def l) simp
  have ia0: "interpret_args (pre @ [a, v])
      = (if falsy (id_arg r1) then Inl (Fatal MissingId) else Inr ?r2)"
    using n by (simp only: interpret_args_def l0 i) simp
  show ?thesis
    unfolding Let_def using i l [of rest] ia l0 ia0 by blast
qed

theorem value_token_consumed_witness:
  "''--tags'' \<in> set value_flags \<and> settled [''ab-1234'']
   \<and> arg_loop [''ab-1234''] no_request = Inr (no_request\<lparr>id_arg := Str ''ab-1234''\<rparr>)
   \<and> interpret_args [''ab-1234'', ''--tags'', ''-x'', ''-d'', ''--bogus'']
       = Inr (no_request\<lparr>id_arg := Str ''ab-1234'', description := Str ''--bogus'', tags := Str ''-x''\<rparr>)
   \<and> interpret_args [''ab-1234'', ''--tags'', ''-x'']
       = Inr (no_request\<lparr>id_arg := Str ''ab-1234'', tags := Str ''-x''\<rparr>)"
proof -
  let ?r1 = "no_request\<lparr>id_arg := Str ''ab-1234''\<rparr>"
  let ?r2 = "no_request\<lparr>id_arg := Str ''ab-1234'', tags := Str ''-x''\<rparr>"
  let ?r3 = "no_request\<lparr>id_arg := Str ''ab-1234'', description := Str ''--bogus'', tags := Str ''-x''\<rparr>"
  have m: "''--tags'' \<in> set value_flags"
    by (simp add: value_flags_def)
  have s: "settled [''ab-1234'']"
    by (simp add: flag_of_def)
  have p: "arg_loop [''ab-1234''] no_request = Inr ?r1"
    by (simp add: flag_of_def startsWith_def no_request_def)
  have n: "''--tk-describe'' \<notin> set ([''ab-1234''] @ ''--tags'' # ''-x'' # [''-d'', ''--bogus''])"
    "''-h'' \<notin> set ([''ab-1234''] @ ''--tags'' # ''-x'' # [''-d'', ''--bogus''])"
    "''--help'' \<notin> set ([''ab-1234''] @ ''--tags'' # ''-x'' # [''-d'', ''--bogus''])"
    by simp_all
  have r2: "(if ''--tags'' = ''-d'' \<or> ''--tags'' = ''--description'' then ?r1\<lparr>description := Str ''-x''\<rparr>
             else if ''--tags'' = ''-t'' \<or> ''--tags'' = ''--type'' then ?r1\<lparr>type_arg := Str ''-x''\<rparr>
             else if ''--tags'' = ''-p'' \<or> ''--tags'' = ''--priority'' then ?r1\<lparr>priority := Str ''-x''\<rparr>
             else if ''--tags'' = ''-a'' \<or> ''--tags'' = ''--assignee'' then ?r1\<lparr>assignee := Str ''-x''\<rparr>
             else if ''--tags'' = ''--external-ref'' then ?r1\<lparr>externalRef := Str ''-x''\<rparr>
             else if ''--tags'' = ''--parent'' then ?r1\<lparr>parent := Str ''-x''\<rparr>
             else ?r1\<lparr>tags := Str ''-x''\<rparr>) = ?r2"
    by simp
  have r: "arg_loop [''-d'', ''--bogus''] ?r2 = Inr ?r3"
    by (simp add: flag_of_def no_request_def)
  have f: "\<not> falsy (id_arg ?r1)" "\<not> falsy (id_arg ?r3)"
    by simp_all
  have ap: "[''ab-1234''] @ ''--tags'' # ''-x'' # [''-d'', ''--bogus'']
      = [''ab-1234'', ''--tags'', ''-x'', ''-d'', ''--bogus'']"
    "[''ab-1234''] @ [''--tags'', ''-x''] = [''ab-1234'', ''--tags'', ''-x'']"
    by simp_all
  have "interpret_args [''ab-1234'', ''--tags'', ''-x'', ''-d'', ''--bogus'']
          = (case (Inr ?r3 :: error + request) of
               Inl e \<Rightarrow> Inl (Fatal e)
             | Inr r \<Rightarrow> if falsy (id_arg r) then Inl (Fatal MissingId) else Inr r)
      \<and> interpret_args [''ab-1234'', ''--tags'', ''-x'']
          = (if falsy (id_arg ?r1) then Inl (Fatal MissingId) else Inr ?r2)"
    using value_token_consumed [OF m s p n] unfolding Let_def r2 r ap by blast
  then have "interpret_args [''ab-1234'', ''--tags'', ''-x'', ''-d'', ''--bogus''] = Inr ?r3
      \<and> interpret_args [''ab-1234'', ''--tags'', ''-x''] = Inr ?r2"
    using f by (simp only: sum.case if_False)
  then show ?thesis
    using m s p by blast
qed

text \<open>
  The claim as written fails for an argument list in which the token after the flag is
  \<^verbatim>\<open>--help\<close>: the help test comes before the loop and looks at every token, so the run
  prints the usage text, on every machine, although the loop would have stored the
  token. It fails as well when the flag is itself the value of the flag before it:
  then the token behind it is read as the identifier.
\<close>

theorem help_after_flag_counterexample:
  "''-d'' \<in> set value_flags \<and> ''-t'' \<in> set value_flags
   \<and> arg_loop [''ab-1234'', ''-d'', ''--help''] no_request
       = Inr (no_request\<lparr>id_arg := Str ''ab-1234'', description := Str ''--help''\<rparr>)
   \<and> interpret_args [''ab-1234'', ''-d'', ''--help''] = Inl (Printed usage)
   \<and> main (demo_sys None) [''ab-1234'', ''-d'', ''--help''] = Printed usage
   \<and> main bare_sys [''ab-1234'', ''-d'', ''--help''] = Printed usage
   \<and> interpret_args [''-d'', ''-t'', ''ab-1234'']
       = Inr (no_request\<lparr>id_arg := Str ''ab-1234'', description := Str ''-t''\<rparr>)"
  by code_simp

section \<open>Properties of the ticket locator\<close>

subsection \<open>The walk towards the root\<close>

lemma walk_up_found:
  "k \<le> length dir \<Longrightarrow> isdir (take k dir @ [''.tickets''])
   \<Longrightarrow> (\<forall>j. k < j \<and> j \<le> length dir \<longrightarrow> \<not> isdir (take j dir @ [''.tickets'']))
   \<Longrightarrow> walk_up isdir dir = Inr (Walked (take k dir @ [''.tickets'']))"
proof (induction isdir dir rule: walk_up.induct)
  case (1 isdir dir)
  show ?case
  proof (cases "isdir (dir @ [''.tickets''])")
    case True
    have "k = length dir"
    proof (rule ccontr)
      assume "k \<noteq> length dir"
      with "1.prems"(1) have "k < length dir" by simp
      with "1.prems"(3) True show False by auto
    qed
    with True show ?thesis by (simp add: walk_up.simps [of isdir dir])
  next
    case False
    with "1.prems"(1,2) have lt: "k < length dir"
      by (cases "k = length dir") auto
    then have ne: "butlast dir \<noteq> dir"
      by (cases dir rule: rev_cases) auto
    have tk: "\<And>j. j \<le> length (butlast dir) \<Longrightarrow> take j (butlast dir) = take j dir"
      by (simp add: take_butlast butlast_conv_take)
    have "walk_up isdir (butlast dir) = Inr (Walked (take k (butlast dir) @ [''.tickets'']))"
    proof (rule "1.IH" [OF refl False refl ne])
      show "k \<le> length (butlast dir)" using lt by simp
      show "isdir (take k (butlast dir) @ [''.tickets''])"
        using lt "1.prems"(2) tk by simp
      show "\<forall>j. k < j \<and> j \<le> length (butlast dir) \<longrightarrow> \<not> isdir (take j (butlast dir) @ [''.tickets''])"
        using "1.prems"(3) tk by auto
    qed
    moreover have "take k (butlast dir) = take k dir" using lt tk by simp
    ultimately show ?thesis using False ne by (simp add: walk_up.simps [of isdir dir] Let_def)
  qed
qed

lemma walk_up_none:
  "(\<forall>k\<le>length dir. \<not> isdir (take k dir @ [''.tickets'']))
   \<Longrightarrow> walk_up isdir dir = Inl NoTicketsDir"
proof (induction isdir dir rule: walk_up.induct)
  case (1 isdir dir)
  from "1.prems" have F: "\<not> isdir (dir @ [''.tickets''])" by force
  show ?case
  proof (cases "butlast dir = dir")
    case True
    with F show ?thesis by (simp add: walk_up.simps [of isdir dir] Let_def)
  next
    case False
    have tk: "\<And>j. j \<le> length (butlast dir) \<Longrightarrow> take j (butlast dir) = take j dir"
      by (simp add: take_butlast butlast_conv_take)
    have "walk_up isdir (butlast dir) = Inl NoTicketsDir"
    proof (rule "1.IH" [OF refl F refl False])
      show "\<forall>k\<le>length (butlast dir). \<not> isdir (take k (butlast dir) @ [''.tickets''])"
        using "1.prems" tk by auto
    qed
    with F False show ?thesis by (simp add: walk_up.simps [of isdir dir] Let_def)
  qed
qed

text \<open>
  C6, as the code has it. The override is used, whatever the file system holds, when
  it is set to a non-empty value; an empty value is falsy and counts as unset. Without
  an override the walk starts at the working directory itself and returns the reserved
  subdirectory of the deepest ancestor that has one (\<open>take k\<close> of the components, for
  the greatest such \<open>k\<close>); when no ancestor up to the root has one the run ends with
  ``no .tickets directory found''.
\<close>

theorem findTicketsDir_spec:
  "(env_TICKETS_DIR s = Some d \<and> d \<noteq> [] \<longrightarrow> findTicketsDir s = Inr (EnvDir d))
   \<and> ((env_TICKETS_DIR s = None \<or> env_TICKETS_DIR s = Some []) \<longrightarrow>
        (\<forall>k. k \<le> length (cwd s) \<and> is_directory s (take k (cwd s) @ [''.tickets''])
              \<and> (\<forall>j. k < j \<and> j \<le> length (cwd s)
                         \<longrightarrow> \<not> is_directory s (take j (cwd s) @ [''.tickets'']))
            \<longrightarrow> findTicketsDir s = Inr (Walked (take k (cwd s) @ [''.tickets''])))
        \<and> ((\<forall>k\<le>length (cwd s). \<not> is_directory s (take k (cwd s) @ [''.tickets'']))
            \<longrightarrow> findTicketsDir s = Inl NoTicketsDir))"
  by (auto simp add: findTicketsDir_def walk_up_found walk_up_none)

theorem findTicketsDir_spec_witness:
  "findTicketsDir (demo_sys (Some ''/srv/tickets'')) = Inr (EnvDir ''/srv/tickets'')
   \<and> cwd (demo_sys None) = [''proj'', ''src'', ''deep'']
   \<and> findTicketsDir (demo_sys None) = Inr (Walked [''proj'', ''.tickets''])
   \<and> findTicketsDir bare_sys = Inl NoTicketsDir"
proof -
  have a: "findTicketsDir (demo_sys (Some ''/srv/tickets'')) = Inr (EnvDir ''/srv/tickets'')"
    using findTicketsDir_spec [of "demo_sys (Some ''/srv/tickets'')" "''/srv/tickets''"]
    by (simp add: demo_sys_def)
  have "\<forall>j. 1 < j \<and> j \<le> length (cwd (demo_sys None))
          \<longrightarrow> \<not> is_directory (demo_sys None) (take j (cwd (demo_sys None)) @ [''.tickets''])"
    by (auto simp add: demo_sys_def take_Cons')
  then have b: "findTicketsDir (demo_sys None) = Inr (Walked [''proj'', ''.tickets''])"
    using findTicketsDir_spec [of "demo_sys None" "[]", THEN conjunct2, THEN mp, THEN conjunct1,
        THEN spec, of 1]
    by (simp add: demo_sys_def)
  have c: "findTicketsDir bare_sys = Inl NoTicketsDir"
    using findTicketsDir_spec [of bare_sys "[]"] by (simp add: bare_sys_def)
  show ?thesis using a b c by (simp add: demo_sys_def)
qed

text \<open>
  The claim as written fails for an override that is set but empty: the walk is taken
  and finds the store above the working directory.
\<close>

theorem findTicketsDir_override_counterexample:
  "env_TICKETS_DIR (demo_sys (Some '''')) = Some ''''
   \<and> findTicketsDir (demo_sys (Some '''')) = Inr (Walked [''proj'', ''.tickets''])
   \<and> findTicketsDir (demo_sys (Some '''')) \<noteq> Inr (EnvDir '''')"
  by code_simp

subsection \<open>Resolving an identifier\<close>

text \<open>
  C5. The file named by the trimmed identifier and \<^verbatim>\<open>.md\<close> is used when it exists.
  Otherwise, when the directory can be listed, the entries that end in \<^verbatim>\<open>.md\<close> and
  contain the trimmed identifier decide: none is ``not found'', one is the ticket, two
  or more is ``ambiguous''. A \<^verbatim>\<open>--parent\<close> value goes through the same function on the
  same directory: its failure is the failure of the run, and its result, without the
  extension, becomes the \<^verbatim>\<open>parent\<close> field.
\<close>

theorem resolveTicket_spec:
  "(existsSync s (d, trim i @ ''.md'') \<longrightarrow> resolveTicket s d i = Inr (d, trim i @ ''.md''))
   \<and> (\<not> existsSync s (d, trim i @ ''.md'') \<and> readdirSync s d = Some entries \<longrightarrow>
        (case filter (\<lambda>f. endsWith f ''.md'' \<and> includes_str f (trim i)) entries of
           [] \<Rightarrow> resolveTicket s d i = Inl (NotFound i)
         | [m] \<Rightarrow> resolveTicket s d i = Inr (d, m)
         | m # m' # ms \<Rightarrow> resolveTicket s d i = Inl (Ambiguous i)))
   \<and> (interpret_args args = Inr r \<and> parent r = Str p \<and> findTicketsDir s = Inr d
        \<and> resolveTicket s d (to_string (id_arg r)) = Inr f \<and> readFileSync s f = Some c
        \<and> load c = Some (fm, b) \<longrightarrow>
        (case resolveTicket s d p of
           Inl e \<Rightarrow> main s args = Fatal e
         | Inr pf \<Rightarrow> parent_block s d (parent r) (flds, ch)
                      = Inr (setField ''parent'' (basename_md s pf) flds, True)))"
  by (auto simp add: resolveTicket_def Let_def main_def amend_def parent_block_def replace_block_def
      split: list.splits sum.splits)

theorem resolveTicket_spec_witness:
  "resolveTicket (demo_sys None) (Walked [''proj'', ''.tickets'']) '' ab-1234 ''
     = Inr (Walked [''proj'', ''.tickets''], ''ab-1234.md'')
   \<and> resolveTicket (demo_sys None) (Walked [''proj'', ''.tickets'']) ''cd''
     = Inr (Walked [''proj'', ''.tickets''], ''cd-5678.md'')
   \<and> resolveTicket (demo_sys None) (Walked [''proj'', ''.tickets'']) ''-'' = Inl (Ambiguous ''-'')
   \<and> resolveTicket (demo_sys None) (Walked [''proj'', ''.tickets'']) ''zz'' = Inl (NotFound ''zz'')
   \<and> main (demo_sys None) [''ab-1234'', ''--parent'', ''zz''] = Fatal (NotFound ''zz'')
   \<and> main (demo_sys None) [''ab-1234'', ''--parent'', ''-''] = Fatal (Ambiguous ''-'')"
proof -
  let ?s = "demo_sys None" and ?d = "Walked [''proj'', ''.tickets'']"
  let ?es = "[''ab-1234.md'', ''cd-5678.md'']"
  have rd: "readdirSync ?s ?d = Some ?es"
    by (simp add: demo_sys_def demo_files_def)
  have ex: "existsSync ?s (?d, trim '' ab-1234 '' @ ''.md'')"
    by code_simp
  have nex: "\<not> existsSync ?s (?d, trim ''cd'' @ ''.md'')"
    "\<not> existsSync ?s (?d, trim ''-'' @ ''.md'')" "\<not> existsSync ?s (?d, trim ''zz'' @ ''.md'')"
    by code_simp+
  have tr: "trim '' ab-1234 '' @ ''.md'' = ''ab-1234.md''"
    by code_simp
  have f1: "filter (\<lambda>f. endsWith f ''.md'' \<and> includes_str f (trim ''cd'')) ?es = [''cd-5678.md'']"
    by code_simp
  have f2: "filter (\<lambda>f. endsWith f ''.md'' \<and> includes_str f (trim ''-'')) ?es = ?es"
    by code_simp
  have f3: "filter (\<lambda>f. endsWith f ''.md'' \<and> includes_str f (trim ''zz'')) ?es = []"
    by code_simp
  have r1: "resolveTicket ?s ?d '' ab-1234 '' = Inr (?d, ''ab-1234.md'')"
    using resolveTicket_spec [of ?s ?d "'' ab-1234 ''"] ex tr by simp
  have r2: "resolveTicket ?s ?d ''cd'' = Inr (?d, ''cd-5678.md'')"
    using resolveTicket_spec [of ?s ?d "''cd''" ?es] nex rd f1 by simp
  have r3: "resolveTicket ?s ?d ''-'' = Inl (Ambiguous ''-'')"
    using resolveTicket_spec [of ?s ?d "''-''" ?es] nex rd f2 by simp
  have r4: "resolveTicket ?s ?d ''zz'' = Inl (NotFound ''zz'')"
    using resolveTicket_spec [of ?s ?d "''zz''" ?es] nex rd f3 by simp
  let ?r = "\<lambda>p. no_request\<lparr>id_arg := Str ''ab-1234'', parent := Str p\<rparr>"
  have ia: "interpret_args [''ab-1234'', ''--parent'', ''zz''] = Inr (?r ''zz'')"
    "interpret_args [''ab-1234'', ''--parent'', ''-''] = Inr (?r ''-'')"
    by code_simp+
  have fd: "findTicketsDir ?s = Inr ?d"
    by code_simp
  have rp: "resolveTicket ?s ?d (to_string (id_arg (?r p))) = Inr (?d, ''ab-1234.md'')" for p
    by code_simp
  have rf: "readFileSync ?s (?d, ''ab-1234.md'') = Some (snd (hd demo_files))"
    by code_simp
  have ld: "load (snd (hd demo_files))
      = Some (''id: ab-1234\<newline>status: open\<newline>deps:\<newline>  - cd-5678\<newline>priority: 2\<newline>tags: [backend, api]'', ''# Title\<newline>\<newline>Text\<newline>'')"
    by code_simp
  have m1: "main ?s [''ab-1234'', ''--parent'', ''zz''] = Fatal (NotFound ''zz'')"
    using resolveTicket_spec [of ?s ?d _ _ "[''ab-1234'', ''--parent'', ''zz'']" "?r ''zz''" "''zz''"
        "(?d, ''ab-1234.md'')" "snd (hd demo_files)", THEN conjunct2, THEN conjunct2] ia fd rp rf ld r4
    by simp
  have m2: "main ?s [''ab-1234'', ''--parent'', ''-''] = Fatal (Ambiguous ''-'')"
    using resolveTicket_spec [of ?s ?d _ _ "[''ab-1234'', ''--parent'', ''-'']" "?r ''-''" "''-''"
        "(?d, ''ab-1234.md'')" "snd (hd demo_files)", THEN conjunct2, THEN conjunct2] ia fd rp rf ld r3
    by simp
  show ?thesis using r1 r2 r3 r4 m1 m2 by simp
qed

section \<open>Properties of the frontmatter engine\<close>

subsection \<open>Splitting, joining and trimming\<close>

lemma split_no_sep: "c \<notin> set x \<Longrightarrow> split c x = [x]"
  by (induction x) auto

lemma split_append_sep: "c \<notin> set x \<Longrightarrow> split c (x @ c # s) = x # split c s"
  by (induction x) auto

lemma split_not_Nil: "split c s \<noteq> []"
  by (induction s) (auto split: list.splits)


lemma split_lines_no_sep: "l \<in> set (split c s) \<Longrightarrow> c \<notin> set l"
proof (induction s arbitrary: l)
  case Nil
  then show ?case by simp
next
  case (Cons x xs)
  obtain r rs where rs: "split c xs = r # rs"
    using split_not_Nil [of c xs] by (cases "split c xs") auto
  have r: "c \<notin> set r" and rest: "\<forall>l\<in>set rs. c \<notin> set l"
    using Cons.IH rs by auto
  show ?case
  proof (cases "x = c")
    case True
    with Cons.prems rs r rest show ?thesis by auto
  next
    case False
    with Cons.prems rs r rest show ?thesis by auto
  qed
qed

lemma split_join:
  "ls \<noteq> [] \<Longrightarrow> \<forall>l\<in>set ls. c \<notin> set l \<Longrightarrow> split c (join [c] ls) = ls"
proof (induction "[c]" ls rule: join.induct)
  case 1
  then show ?case by simp
next
  case (2 x)
  then show ?case by (simp add: split_no_sep)
next
  case (3 x y ys)
  then have "split c (join [c] (y # ys)) = y # ys" by simp
  moreover have "c \<notin> set x" using 3 by simp
  ultimately show ?case
    using split_append_sep [of c x "join [c] (y # ys)"] by simp
qed

lemma hd_split: "\<exists>q. s = hd (split c s) @ q \<and> (q = [] \<or> hd q = c)"
proof (induction s)
  case Nil
  show ?case by simp
next
  case (Cons x xs)
  obtain r rs where rs: "split c xs = r # rs"
    using split_not_Nil [of c xs] by (cases "split c xs") auto
  from Cons rs obtain q where q: "xs = r @ q" "q = [] \<or> hd q = c" by auto
  show ?case
  proof (cases "x = c")
    case True
    then show ?thesis by (auto intro: exI [of _ "x # xs"])
  next
    case False
    with rs q show ?thesis by (auto intro: exI [of _ q])
  qed
qed

lemma tl_split:
  "l \<in> set (tl (split c s)) \<Longrightarrow> \<exists>p q. s = p @ c # l @ q \<and> (q = [] \<or> hd q = c)"
proof (induction s)
  case Nil
  then show ?case by simp
next
  case (Cons x xs)
  obtain r rs where rs: "split c xs = r # rs"
    using split_not_Nil [of c xs] by (cases "split c xs") auto
  show ?case
  proof (cases "x = c")
    case True
    with Cons.prems have "l \<in> set (split c xs)" by simp
    with rs have "l = r \<or> l \<in> set (tl (split c xs))" by auto
    then show ?thesis
    proof
      assume "l = r"
      with hd_split [of xs c] rs obtain q where "xs = l @ q" "q = [] \<or> hd q = c" by auto
      with True have "x # xs = [] @ c # l @ q \<and> (q = [] \<or> hd q = c)" by simp
      then show ?thesis by blast
    next
      assume "l \<in> set (tl (split c xs))"
      with Cons.IH obtain p q where "xs = p @ c # l @ q" "q = [] \<or> hd q = c" by blast
      then have "x # xs = (x # p) @ c # l @ q \<and> (q = [] \<or> hd q = c)" by simp
      then show ?thesis by blast
    qed
  next
    case False
    with Cons.prems rs have "l \<in> set (tl (split c xs))" by simp
    with Cons.IH obtain p q where "xs = p @ c # l @ q" "q = [] \<or> hd q = c" by blast
    then have "x # xs = (x # p) @ c # l @ q \<and> (q = [] \<or> hd q = c)" by simp
    then show ?thesis by blast
  qed
qed

lemma trim_fixed:
  assumes "t \<noteq> []" "\<not> is_ws (hd t)" "\<not> is_ws (last t)" "\<forall>c\<in>set p. is_ws c"
  shows "trim (p @ t) = t"
proof -
  have "dropWhile is_ws (p @ t) = t"
    using assms by (cases t) (auto simp add: dropWhile_append2)
  moreover have "dropWhile is_ws (rev t) = rev t"
    using assms by (cases t rule: rev_cases) auto
  ultimately show ?thesis by (simp add: trim_def trimStart_def trimEnd_def)
qed

lemma trimEnd_prefix: "\<exists>w. s = trimEnd s @ w \<and> (\<forall>c\<in>set w. is_ws c)"
proof -
  have "rev s = takeWhile is_ws (rev s) @ dropWhile is_ws (rev s)" by simp
  then have "s = rev (dropWhile is_ws (rev s)) @ rev (takeWhile is_ws (rev s))"
    by (metis rev_append rev_rev_ident)
  moreover have "\<forall>c\<in>set (rev (takeWhile is_ws (rev s))). is_ws c"
    by (auto dest: set_takeWhileD)
  ultimately show ?thesis unfolding trimEnd_def by blast
qed

lemma trim_ends:
  assumes "trim s \<noteq> []"
  shows "\<not> is_ws (hd (trim s)) \<and> \<not> is_ws (last (trim s))"
proof -
  let ?y = "dropWhile is_ws s"
  obtain w where w: "?y = trimEnd ?y @ w"
    using trimEnd_prefix [of ?y] by blast
  have z: "trim s = trimEnd ?y" by (simp add: trim_def trimStart_def)
  with assms have ne: "trimEnd ?y \<noteq> []" by simp
  have e: "trimEnd [] = []" by (simp add: trimEnd_def)
  from ne e have "?y \<noteq> []" by metis
  then have "\<not> is_ws (hd ?y)" by (rule hd_dropWhile)
  moreover have "hd ?y = hd (trimEnd ?y)"
    using w ne by (metis hd_append2)
  moreover have "\<not> is_ws (last (trimEnd ?y))"
  proof -
    have "dropWhile is_ws (rev ?y) \<noteq> []" using ne by (simp add: trimEnd_def)
    then have "\<not> is_ws (hd (dropWhile is_ws (rev ?y)))" by (rule hd_dropWhile)
    then show ?thesis using ne by (simp add: trimEnd_def last_rev)
  qed
  ultimately show ?thesis using z by simp
qed

lemma trim_idem: "trim (trim s) = trim s"
proof (cases "trim s = []")
  case True
  have e: "trim [] = []" by (simp add: trim_def trimStart_def trimEnd_def)
  show ?thesis by (simp only: True e)
next
  case False
  with trim_ends [OF False] trim_fixed [of "trim s" "[]"] show ?thesis by simp
qed

lemma trim_fixed_ends:
  assumes "t \<noteq> []" "trim t = t"
  shows "\<not> is_ws (hd t) \<and> \<not> is_ws (last t)"
  using trim_ends [of t] assms by simp

lemma tokens_trimmed: "t \<in> set (tokens s) \<Longrightarrow> t \<noteq> [] \<and> trim t = t"
  by (auto simp add: tokens_def trim_idem)

lemma comma_not_ws: "is_ws c \<Longrightarrow> c \<noteq> CHR '',''"
  by (auto simp add: is_ws_def)

lemma trim_Nil: "trim [] = []"
  by (simp add: trim_def trimStart_def trimEnd_def)

lemma tokens_join:
  "tag_list ts \<Longrightarrow> ts \<noteq> [] \<Longrightarrow> \<forall>c\<in>set p. is_ws c \<Longrightarrow> tokens (p @ join '', '' ts) = ts"
proof (induction ts arbitrary: p)
  case Nil
  then show ?case by simp
next
  case (Cons t us)
  from Cons.prems(1) have t: "t \<noteq> []" "trim t = t" "CHR '','' \<notin> set t" and us: "tag_list us"
    by (simp_all add: tag_list_def)
  have nc: "CHR '','' \<notin> set (p @ t)"
    using t(3) Cons.prems(3) comma_not_ws by auto
  have tr: "trim (p @ t) = t"
    using trim_fixed [of t p] trim_fixed_ends [OF t(1,2)] t(1) Cons.prems(3) by simp
  show ?case
  proof (cases us)
    case Nil
    then show ?thesis
      using split_no_sep [OF nc] tr t(1) by (simp add: tokens_def)
  next
    case (Cons u vs)
    have "p @ join '', '' (t # us) = (p @ t) @ CHR '','' # ('' '' @ join '', '' us)"
      using Cons by simp
    then have "split CHR '','' (p @ join '', '' (t # us))
        = (p @ t) # split CHR '','' ('' '' @ join '', '' us)"
      using split_append_sep [OF nc] by simp
    moreover have "tokens ('' '' @ join '', '' us) = us"
      using Cons.IH [of "'' ''"] us Cons by (simp add: is_ws_def)
    ultimately show ?thesis
      using tr t(1) by (simp add: tokens_def)
  qed
qed

subsection \<open>Loading, parsing and replacing\<close>

lemma find_close_sound:
  "find_close s = Some (a, b) \<Longrightarrow> s = a @ ''\<newline>---\<newline>'' @ b"
proof (induction s arbitrary: a)
  case Nil
  then show ?case by simp
next
  case (Cons c cs)
  show ?case
  proof (cases "startsWith (c # cs) ''\<newline>---\<newline>''")
    case True
    then obtain z where z: "c # cs = ''\<newline>---\<newline>'' @ z"
      unfolding startsWith_def prefix_def by blast
    then have "drop 5 (c # cs) = z" by simp
    with True Cons.prems z show ?thesis by simp
  next
    case False
    with Cons.prems obtain a' where a': "find_close cs = Some (a', b)" "a = c # a'"
      by (auto split: option.splits)
    from Cons.IH [OF a'(1)] a'(2) show ?thesis by simp
  qed
qed







lemma colon_not_key_char: "\<not> is_key_char CHR '':''"
  by (simp add: is_key_char_def is_lower_def is_digit_def)

lemma space_not_terminator: "\<not> is_line_terminator CHR '' ''"
  by (simp add: is_line_terminator_def)

lemma parse_line_Raw: "parse_line l = Raw x \<Longrightarrow> x = l"
  by (auto simp add: parse_line_def Let_def split: if_splits)

lemma parse_line_KV:
  assumes "parse_line l = KV k v"
  shows "k = takeWhile is_key_char l \<and> k \<noteq> [] \<and> is_lower (hd k)
     \<and> (\<exists>r. dropWhile is_key_char l = CHR '':'' # r \<and> \<not> list_ex is_line_terminator r
            \<and> v = (if startsWith r '' '' then tl r else r))"
proof -
  let ?k = "takeWhile is_key_char l" and ?r = "dropWhile is_key_char l"
  from assms have c: "?k \<noteq> []" "is_lower (hd ?k)" "startsWith ?r '':''"
    "\<not> list_ex is_line_terminator (tl ?r)"
    and kv: "k = ?k" "v = (if startsWith (tl ?r) '' '' then tl (tl ?r) else tl ?r)"
    by (auto simp add: parse_line_def Let_def split: if_splits)
  from c(3) obtain r where r: "?r = CHR '':'' # r"
    unfolding startsWith_def prefix_def by auto
  with c kv show ?thesis by simp
qed

lemma parse_line_render:
  assumes "\<forall>c\<in>set k. is_key_char c" "k \<noteq> []" "is_lower (hd k)" "\<not> list_ex is_line_terminator v"
  shows "parse_line (render (KV k v)) = KV k v"
proof -
  have tw: "takeWhile is_key_char (k @ '': '' @ v) = k"
    using assms(1) colon_not_key_char by (simp add: takeWhile_append2)
  have dw: "dropWhile is_key_char (k @ '': '' @ v) = '': '' @ v"
    using assms(1) colon_not_key_char by (simp add: dropWhile_append2)
  show ?thesis
    using assms(2-4) space_not_terminator
    by (simp add: parse_line_def tw dw Let_def startsWith_def del: append.simps)
qed

lemma parse_render_parse: "parse_line (render (parse_line l)) = parse_line l"
proof (cases "parse_line l")
  case (KV k v)
  from parse_line_KV [OF KV] obtain r where
    k: "k = takeWhile is_key_char l" "k \<noteq> []" "is_lower (hd k)"
    and r: "\<not> list_ex is_line_terminator r" "v = (if startsWith r '' '' then tl r else r)"
    by blast
  have "\<forall>c\<in>set k. is_key_char c"
    unfolding k(1) by (auto dest: set_takeWhileD)
  moreover have "\<not> list_ex is_line_terminator v"
    using r by (cases r) (auto simp add: list_ex_iff)
  ultimately show ?thesis
    using KV k(2,3) parse_line_render by simp
next
  case (Raw x)
  with parse_line_Raw [OF Raw] show ?thesis by simp
qed




subsection \<open>Reading back a written file\<close>

lemma find_close_minimal:
  "find_close s = Some (a, b) \<Longrightarrow> length p < length a \<Longrightarrow> s \<noteq> p @ ''\<newline>---\<newline>'' @ q"
proof (induction s arbitrary: a p)
  case Nil
  then show ?case by simp
next
  case (Cons c cs)
  show ?case
  proof (cases "startsWith (c # cs) ''\<newline>---\<newline>''")
    case True
    with Cons.prems show ?thesis by simp
  next
    case False
    with Cons.prems obtain a' where a': "find_close cs = Some (a', b)" "a = c # a'"
      by (auto split: option.splits)
    show ?thesis
    proof
      assume eq: "c # cs = p @ ''\<newline>---\<newline>'' @ q"
      show False
      proof (cases p)
        case Nil
        with eq False show False by (simp add: startsWith_def)
      next
        case (Cons x p')
        with eq have "cs = p' @ ''\<newline>---\<newline>'' @ q" by simp
        moreover have "length p' < length a'" using Cons Cons.prems(2) a'(2) by simp
        ultimately show False using Cons.IH [OF a'(1)] by blast
      qed
    qed
  qed
qed

lemma find_close_skip:
  "CHR ''\<newline>'' \<notin> set l \<Longrightarrow>
   find_close (l @ t) = map_option (\<lambda>(a, b). (l @ a, b)) (find_close t)"
proof (induction l)
  case Nil
  show ?case by (simp add: option.map_ident)
next
  case (Cons x xs)
  then have x: "x \<noteq> CHR ''\<newline>''" and xs: "CHR ''\<newline>'' \<notin> set xs" by auto
  have "\<not> startsWith (x # xs @ t) ''\<newline>---\<newline>''"
    using x by (simp add: startsWith_def)
  then show ?case
    using Cons.IH [OF xs] by (cases "find_close t") (auto simp add: )
qed

lemma find_close_here: "find_close (''\<newline>---\<newline>'' @ b) = Some ([], b)"
  by (simp add: startsWith_def)

lemma not_close_line:
  assumes "CHR ''\<newline>'' \<notin> set l" "l \<noteq> ''---''"
  shows "\<not> startsWith (CHR ''\<newline>'' # l @ CHR ''\<newline>'' # t) ''\<newline>---\<newline>''"
proof
  assume "startsWith (CHR ''\<newline>'' # l @ CHR ''\<newline>'' # t) ''\<newline>---\<newline>''"
  then have p: "prefix ''---\<newline>'' (l @ CHR ''\<newline>'' # t)"
    by (simp add: startsWith_def)
  then obtain z where z: "l @ CHR ''\<newline>'' # t = ''---'' @ CHR ''\<newline>'' # z"
    unfolding prefix_def by auto
  have "takeWhile (\<lambda>c. c \<noteq> CHR ''\<newline>'') (l @ CHR ''\<newline>'' # t) = l"
  proof -
    have "\<forall>x\<in>set l. x \<noteq> CHR ''\<newline>''" using assms(1) by auto
    then show ?thesis by (simp add: takeWhile_append2)
  qed
  moreover have "takeWhile (\<lambda>c. c \<noteq> CHR ''\<newline>'') (''---'' @ CHR ''\<newline>'' # z) = ''---''"
    by simp
  ultimately show False using z assms(2) by simp
qed

lemma find_close_lines:
  "\<forall>l\<in>set (l0 # ls). CHR ''\<newline>'' \<notin> set l \<Longrightarrow> ''---'' \<notin> set ls \<Longrightarrow>
   find_close (join ''\<newline>'' (l0 # ls) @ ''\<newline>---\<newline>'' @ b) = Some (join ''\<newline>'' (l0 # ls), b)"
proof (induction ls arbitrary: l0)
  case Nil
  then show ?case
    using find_close_skip [of l0 "''\<newline>---\<newline>'' @ b"] find_close_here [of b] by simp
next
  case (Cons l1 ls)
  from Cons.prems have l0: "CHR ''\<newline>'' \<notin> set l0" and l1: "CHR ''\<newline>'' \<notin> set l1" "l1 \<noteq> ''---''"
    and rest: "\<forall>l\<in>set (l1 # ls). CHR ''\<newline>'' \<notin> set l" "''---'' \<notin> set ls"
    by auto
  let ?t = "join ''\<newline>'' (l1 # ls) @ ''\<newline>---\<newline>'' @ b"
  have ih: "find_close ?t = Some (join ''\<newline>'' (l1 # ls), b)"
    using Cons.IH [OF rest] .
  obtain u where u: "?t = l1 @ CHR ''\<newline>'' # u"
    by (cases ls) auto
  have "\<not> startsWith (CHR ''\<newline>'' # ?t) ''\<newline>---\<newline>''"
    unfolding u using not_close_line [OF l1] by simp
  then have "find_close (CHR ''\<newline>'' # ?t) = Some (CHR ''\<newline>'' # join ''\<newline>'' (l1 # ls), b)"
    using ih by simp
  then have "find_close (l0 @ CHR ''\<newline>'' # ?t) = Some (l0 @ CHR ''\<newline>'' # join ''\<newline>'' (l1 # ls), b)"
    using find_close_skip [OF l0, of "CHR ''\<newline>'' # ?t"] by simp
  then show ?case by simp
qed

lemma loaded_no_close_line:
  assumes "load content = Some (fm, body)"
  shows "''---'' \<notin> set (tl (split CHR ''\<newline>'' fm))"
proof
  assume "''---'' \<in> set (tl (split CHR ''\<newline>'' fm))"
  from tl_split [OF this] obtain p q where
    pq: "fm = p @ CHR ''\<newline>'' # ''---'' @ q" "q = [] \<or> hd q = CHR ''\<newline>''" by blast
  from assms have fc: "find_close (drop 4 content) = Some (fm, body)"
    by (auto simp add: load_def split: if_splits)
  have "\<exists>q'. q @ ''\<newline>---\<newline>'' @ body = CHR ''\<newline>'' # q'"
    using pq(2) by (cases q) auto
  then obtain q' where "q @ ''\<newline>---\<newline>'' @ body = CHR ''\<newline>'' # q'" ..
  then have "fm @ ''\<newline>---\<newline>'' @ body = p @ ''\<newline>---\<newline>'' @ q'"
    using pq(1) by simp
  moreover have "drop 4 content = fm @ ''\<newline>---\<newline>'' @ body"
    using find_close_sound [OF fc] .
  moreover have "length p < length fm" using pq(1) by simp
  ultimately show False
    using find_close_minimal [OF fc, of p q'] by simp
qed

lemma render_no_newline:
  assumes "CHR ''\<newline>'' \<notin> set l"
  shows "CHR ''\<newline>'' \<notin> set (render (parse_line l))"
proof (cases "parse_line l")
  case (KV k v)
  from parse_line_KV [OF KV] obtain r where
    k: "k = takeWhile is_key_char l"
    and r: "dropWhile is_key_char l = CHR '':'' # r" "v = (if startsWith r '' '' then tl r else r)"
    by blast
  have "set k \<subseteq> set l" unfolding k by (auto dest: set_takeWhileD)
  moreover have "set r \<subseteq> set l"
    using set_dropWhileD [of _ is_key_char l] r(1) by auto
  moreover have "set v \<subseteq> set r" using r(2) by (cases r) auto
  ultimately show ?thesis using KV assms by auto
next
  case (Raw x)
  with parse_line_Raw [OF Raw] assms show ?thesis by simp
qed

lemma render_close_line: "render (parse_line l) = ''---'' \<Longrightarrow> l = ''---''"
proof (cases "parse_line l")
  case (KV k v)
  assume "render (parse_line l) = ''---''"
  with KV have "k @ '': '' @ v = ''---''" by simp
  then have "CHR '':'' \<in> set ''---''"
    by (metis append_Cons in_set_conv_decomp)
  then show ?thesis by simp
next
  case (Raw x)
  assume "render (parse_line l) = ''---''"
  with Raw parse_line_Raw [OF Raw] show ?thesis by simp
qed

lemma load_serialize:
  assumes "load content = Some (fm, body)"
  shows "load (serialize (parse_frontmatter fm) newBody)
           = Some (join ''\<newline>'' (map render (parse_frontmatter fm)), newBody)
     \<and> parse_frontmatter (join ''\<newline>'' (map render (parse_frontmatter fm))) = parse_frontmatter fm"
proof -
  let ?ls = "split CHR ''\<newline>'' fm"
  let ?out = "map (\<lambda>l. render (parse_line l)) ?ls"
  obtain l0 ls where ls: "?ls = l0 # ls"
    using split_not_Nil [of "CHR ''\<newline>''" fm] by (cases ?ls) auto
  have out: "map render (parse_frontmatter fm) = ?out"
    by (simp add: parse_frontmatter_def)
  have nn: "\<forall>l\<in>set ?out. CHR ''\<newline>'' \<notin> set l"
    using split_lines_no_sep [of _ "CHR ''\<newline>''" fm] render_no_newline by auto
  have nl: "''---'' \<notin> set ls"
    using loaded_no_close_line [OF assms] ls by simp
  have nc: "''---'' \<notin> set (map (\<lambda>l. render (parse_line l)) ls)"
  proof
    assume "''---'' \<in> set (map (\<lambda>l. render (parse_line l)) ls)"
    then obtain l where l: "l \<in> set ls" "render (parse_line l) = ''---''" by auto
    from render_close_line [OF l(2)] l(1) nl show False by simp
  qed
  have o2: "?out = render (parse_line l0) # map (\<lambda>l. render (parse_line l)) ls"
    using ls by simp
  have fc: "find_close (join ''\<newline>'' ?out @ ''\<newline>---\<newline>'' @ newBody)
      = Some (join ''\<newline>'' ?out, newBody)"
    unfolding o2 using find_close_lines nn nc unfolding o2 by blast
  have a: "load (serialize (parse_frontmatter fm) newBody) = Some (join ''\<newline>'' ?out, newBody)"
    using fc by (simp add: load_def serialize_def startsWith_def out)
  have "split CHR ''\<newline>'' (join ''\<newline>'' ?out) = ?out"
    using split_join [of ?out "CHR ''\<newline>''"] nn o2 by simp
  then have b: "parse_frontmatter (join ''\<newline>'' ?out) = parse_frontmatter fm"
    by (simp add: parse_frontmatter_def parse_render_parse)
  show ?thesis using a b by (simp only: out)
qed

subsection \<open>The frame of a replacement\<close>

lemma main_amend:
  "interpret_args args = Inr r \<Longrightarrow> findTicketsDir s = Inr d
   \<Longrightarrow> resolveTicket s d (to_string (id_arg r)) = Inr f
   \<Longrightarrow> readFileSync s f = Some content \<Longrightarrow> load content = Some (fm, body)
   \<Longrightarrow> main s args = amend s d f r (parse_frontmatter fm) body"
  by (simp add: main_def)

lemma write_back_ok:
  "writeFileSync s f c = WriteOk \<Longrightarrow> write_back s f c = Wrote f c (''Amended '' @ basename_md s f)"
  by (simp add: write_back_def)







subsection \<open>Appending tags\<close>

lemma strip_brackets_encode: "strip_brackets (encode_tags ts) = join '', '' ts"
  by (simp add: strip_brackets_def encode_tags_def startsWith_def endsWith_def)

lemma encode_tags_not_Nil: "encode_tags ts \<noteq> []"
  by (simp add: encode_tags_def)

lemma tokens_Nil: "tokens [] = []"
  by (simp add: tokens_def trim_Nil)

lemma parse_existing_encode: "tag_list ts \<Longrightarrow> parse_existing (Some (encode_tags ts)) = ts"
proof (cases "ts = []")
  case True
  have "parse_existing (Some (encode_tags ts)) = tokens (join '', '' ts)"
    by (simp add: parse_existing_def strip_brackets_encode encode_tags_not_Nil)
  with True show ?thesis by (simp add: tokens_Nil)
next
  case False
  assume tl: "tag_list ts"
  have "parse_existing (Some (encode_tags ts)) = tokens (join '', '' ts)"
    by (simp add: parse_existing_def strip_brackets_encode encode_tags_not_Nil)
  with False tl tokens_join [of ts "[]"] show ?thesis
    by simp
qed

lemma push_new_present: "n \<in> set ts \<Longrightarrow> push_new ts n = ts"
  by (simp add: push_new_def)

lemma push_new_fresh: "n \<notin> set ts \<Longrightarrow> push_new ts n = ts @ [n]"
  by (simp add: push_new_def)

lemma append_tags_Nil: "append_tags ts [] = ts"
  by (simp add: append_tags_def)

lemma append_tags_Cons: "append_tags ts (n # ns) = append_tags (push_new ts n) ns"
  by (simp add: append_tags_def)

lemma append_tags_present: "set ns \<subseteq> set ts \<Longrightarrow> append_tags ts ns = ts"
  by (induction ns) (simp_all add: append_tags_Nil append_tags_Cons push_new_present)

lemma append_tags_fresh:
  "distinct ns \<Longrightarrow> set ns \<inter> set ts = {} \<Longrightarrow> append_tags ts ns = ts @ ns"
proof (induction ns arbitrary: ts)
  case Nil
  show ?case by (simp add: append_tags_Nil)
next
  case (Cons n ns)
  from Cons.prems have n: "n \<notin> set ts" and d: "distinct ns" and i: "set ns \<inter> set (ts @ [n]) = {}"
    by auto
  show ?case
    using Cons.IH [OF d i] n by (simp add: append_tags_Cons push_new_fresh)
qed

lemma append_tags_shape:
  "\<exists>ys. append_tags ts ns = ts @ ys \<and> distinct ys \<and> set ys = set ns - set ts \<and> subseq ys ns"
proof (induction ns arbitrary: ts)
  case Nil
  show ?case by (simp add: append_tags_Nil)
next
  case (Cons n ns)
  show ?case
  proof (cases "n \<in> set ts")
    case True
    from Cons [of ts] obtain ys where ys: "append_tags ts ns = ts @ ys" "distinct ys"
      "set ys = set ns - set ts" "subseq ys ns" by blast
    have "append_tags ts (n # ns) = ts @ ys"
      using True ys(1) by (simp add: append_tags_Cons push_new_present)
    moreover have "set ys = set (n # ns) - set ts"
      using True ys(3) by auto
    moreover have "subseq ys (n # ns)"
      using ys(4) by (rule list_emb_Cons)
    ultimately show ?thesis using ys(2) by blast
  next
    case False
    from Cons [of "ts @ [n]"] obtain ys where ys: "append_tags (ts @ [n]) ns = (ts @ [n]) @ ys"
      "distinct ys" "set ys = set ns - set (ts @ [n])" "subseq ys ns" by blast
    have "append_tags ts (n # ns) = ts @ (n # ys)"
      using False ys(1) by (simp add: append_tags_Cons push_new_fresh)
    moreover have "distinct (n # ys)"
      using ys(2,3) by auto
    moreover have "set (n # ys) = set (n # ns) - set ts"
      using False ys(3) by auto
    moreover have "subseq (n # ys) (n # ns)"
      using ys(4) by simp
    ultimately show ?thesis by blast
  qed
qed

lemma setField_same: "getField k fs = Some v \<Longrightarrow> setField k v fs = fs"
  by (induction k fs rule: getField.induct) (auto split: if_splits)

lemma getField_setField: "getField k (setField k v fs) = Some v"
  by (induction k fs rule: getField.induct) auto

lemma append_tags_filter:
  "A \<subseteq> set ts \<Longrightarrow> append_tags ts ns = append_tags ts (filter (\<lambda>n. n \<notin> A) ns)"
proof (induction ns arbitrary: ts)
  case Nil
  show ?case by simp
next
  case (Cons n ns)
  show ?case
  proof (cases "n \<in> A")
    case True
    with Cons.prems have "n \<in> set ts" by auto
    then show ?thesis
      using True Cons.IH [OF Cons.prems] by (simp add: append_tags_Cons push_new_present)
  next
    case False
    have "A \<subseteq> set (push_new ts n)"
      using Cons.prems by (auto simp add: push_new_def)
    from Cons.IH [OF this] False show ?thesis
      by (simp add: append_tags_Cons)
  qed
qed

lemma append_tags_mixed:
  assumes "distinct (filter (\<lambda>n. n \<notin> set ts) ns)"
  shows "append_tags ts ns = ts @ filter (\<lambda>n. n \<notin> set ts) ns"
proof -
  have "append_tags ts ns = append_tags ts (filter (\<lambda>n. n \<notin> set ts) ns)"
    by (rule append_tags_filter) simp
  also have "\<dots> = ts @ filter (\<lambda>n. n \<notin> set ts) ns"
    using assms by (intro append_tags_fresh) auto
  finally show ?thesis .
qed

text \<open>
  C3. Appending tags that are all in the existing list leaves the list, and so its
  encoding, as it is. Appending tags that are distinct and all new gives the existing
  list followed by the new tags in the order of the input; when some are in the list
  and the others are distinct, those in the list are skipped. When the \<^verbatim>\<open>tags\<close> field
  holds a bracketed list as the program encodes it (tokens that are non-empty, trimmed
  and free of commas, joined by a comma and a space), the existing list is that list,
  and writing its encoding back leaves the fields as they are.
\<close>

theorem tags_append_idempotent:
  "(set (tokens inp) \<subseteq> set (parse_existing (getField ''tags'' flds)) \<longrightarrow>
      tags_block (Str inp) (flds, ch)
        = Inr (setField ''tags'' (encode_tags (parse_existing (getField ''tags'' flds))) flds, True))
   \<and> (distinct (tokens inp) \<and> set (tokens inp) \<inter> set (parse_existing (getField ''tags'' flds)) = {} \<longrightarrow>
      tags_block (Str inp) (flds, ch)
        = Inr (setField ''tags''
                 (encode_tags (parse_existing (getField ''tags'' flds) @ tokens inp)) flds, True))
   \<and> (distinct (filter (\<lambda>t. t \<notin> set (parse_existing (getField ''tags'' flds))) (tokens inp)) \<longrightarrow>
      tags_block (Str inp) (flds, ch)
        = Inr (setField ''tags''
                 (encode_tags (parse_existing (getField ''tags'' flds)
                    @ filter (\<lambda>t. t \<notin> set (parse_existing (getField ''tags'' flds))) (tokens inp)))
                 flds, True))
   \<and> (tag_list ts \<and> getField ''tags'' flds = Some (encode_tags ts) \<longrightarrow>
      parse_existing (getField ''tags'' flds) = ts
      \<and> setField ''tags'' (encode_tags ts) flds = flds)"
proof -
  let ?E = "parse_existing (getField ''tags'' flds)"
  have tb: "tags_block (Str inp) (flds, ch)
      = Inr (setField ''tags'' (encode_tags (append_tags ?E (tokens inp))) flds, True)"
    by (simp add: tags_block_def)
  have a: "set (tokens inp) \<subseteq> set ?E \<longrightarrow> append_tags ?E (tokens inp) = ?E"
    by (simp add: append_tags_present)
  have b: "distinct (tokens inp) \<and> set (tokens inp) \<inter> set ?E = {}
      \<longrightarrow> append_tags ?E (tokens inp) = ?E @ tokens inp"
    by (simp add: append_tags_fresh)
  have c: "distinct (filter (\<lambda>t. t \<notin> set ?E) (tokens inp))
      \<longrightarrow> append_tags ?E (tokens inp) = ?E @ filter (\<lambda>t. t \<notin> set ?E) (tokens inp)"
    by (simp add: append_tags_mixed)
  have d: "tag_list ts \<and> getField ''tags'' flds = Some (encode_tags ts)
      \<longrightarrow> ?E = ts \<and> setField ''tags'' (encode_tags ts) flds = flds"
    by (simp add: parse_existing_encode setField_same)
  show ?thesis
    unfolding tb using a b c d by simp
qed

theorem tags_append_idempotent_witness:
  "tag_list [''backend'', ''api'']
   \<and> getField ''tags'' [KV ''id'' ''ab-1234'', KV ''tags'' ''[backend, api]''] = Some (encode_tags [''backend'', ''api''])
   \<and> tags_block (Str ''api'') ([KV ''id'' ''ab-1234'', KV ''tags'' ''[backend, api]''], False)
       = Inr ([KV ''id'' ''ab-1234'', KV ''tags'' ''[backend, api]''], True)
   \<and> tags_block (Str ''frontend,urgent'') ([KV ''id'' ''ab-1234'', KV ''tags'' ''[backend, api]''], False)
       = Inr ([KV ''id'' ''ab-1234'', KV ''tags'' ''[backend, api, frontend, urgent]''], True)
   \<and> tags_block (Str ''api,frontend'') ([KV ''id'' ''ab-1234'', KV ''tags'' ''[backend, api]''], False)
       = Inr ([KV ''id'' ''ab-1234'', KV ''tags'' ''[backend, api, frontend]''], True)"
proof -
  let ?ts = "[''backend'', ''api'']"
  let ?flds = "[KV ''id'' ''ab-1234'', KV ''tags'' ''[backend, api]'']"
  have tl: "tag_list ?ts" by code_simp
  have gf: "getField ''tags'' ?flds = Some (encode_tags ?ts)" by code_simp
  have pe: "parse_existing (getField ''tags'' ?flds) = ?ts"
    and sf: "setField ''tags'' (encode_tags ?ts) ?flds = ?flds"
    using tags_append_idempotent [of _ ?flds _ ?ts] tl gf by blast+
  have t1: "set (tokens ''api'') \<subseteq> set ?ts" by code_simp
  have t2: "distinct (tokens ''frontend,urgent'') \<and> set (tokens ''frontend,urgent'') \<inter> set ?ts = {}"
    by code_simp
  have t3: "distinct (filter (\<lambda>t. t \<notin> set ?ts) (tokens ''api,frontend''))"
    by code_simp
  have e2: "setField ''tags'' (encode_tags (?ts @ tokens ''frontend,urgent'')) ?flds
     = [KV ''id'' ''ab-1234'', KV ''tags'' ''[backend, api, frontend, urgent]'']"
    by code_simp
  have e3: "setField ''tags'' (encode_tags (?ts @ filter (\<lambda>t. t \<notin> set ?ts) (tokens ''api,frontend''))) ?flds
     = [KV ''id'' ''ab-1234'', KV ''tags'' ''[backend, api, frontend]'']"
    by code_simp
  have a: "tags_block (Str ''api'') (?flds, False) = Inr (?flds, True)"
    using tags_append_idempotent [of "''api''" ?flds False ?ts] t1 unfolding pe sf by blast
  have b: "tags_block (Str ''frontend,urgent'') (?flds, False)
      = Inr ([KV ''id'' ''ab-1234'', KV ''tags'' ''[backend, api, frontend, urgent]''], True)"
    using tags_append_idempotent [of "''frontend,urgent''" ?flds False ?ts] t2 unfolding pe e2 by blast
  have c: "tags_block (Str ''api,frontend'') (?flds, False)
      = Inr ([KV ''id'' ''ab-1234'', KV ''tags'' ''[backend, api, frontend]''], True)"
    using tags_append_idempotent [of "''api,frontend''" ?flds False ?ts] t3 unfolding pe e3 by blast
  show ?thesis using tl gf a b c by blast
qed

lemma append_tags_exact:
  "append_tags ts ns = ts @ rev (remdups (rev (filter (\<lambda>x. x \<notin> set ts) ns)))"
proof (induction ns arbitrary: ts)
  case Nil
  show ?case by (simp add: append_tags_Nil)
next
  case (Cons n ns)
  show ?case
  proof (cases "n \<in> set ts")
    case True
    then show ?thesis using Cons [of ts] by (simp add: append_tags_Cons push_new_present)
  next
    case False
    let ?F = "filter (\<lambda>x. x \<notin> set ts) ns"
    have f: "filter (\<lambda>x. x \<notin> set (ts @ [n])) ns = filter (\<lambda>x. x \<noteq> n) ?F"
      by (induction ns) auto
    have "remdups (xs @ [n]) = remdups (filter (\<lambda>x. x \<noteq> n) xs) @ [n]" for xs
      by (induction xs) auto
    then have "remdups (rev ?F @ [n]) = remdups (filter (\<lambda>x. x \<noteq> n) (rev ?F)) @ [n]" .
    then have r: "rev (remdups (rev (n # ?F))) = n # rev (remdups (rev (filter (\<lambda>x. x \<noteq> n) ?F)))"
      by (simp add: rev_filter)
    have "append_tags ts (n # ns) = append_tags (ts @ [n]) ns"
      using False by (simp add: append_tags_Cons push_new_fresh)
    also have "\<dots> = (ts @ [n]) @ rev (remdups (rev (filter (\<lambda>x. x \<noteq> n) ?F)))"
      using Cons [of "ts @ [n]"] by (simp only: f)
    also have "\<dots> = ts @ rev (remdups (rev (n # ?F)))"
      by (simp only: r) simp
    finally show ?thesis using False by simp
  qed
qed

lemma tokens_comma_list:
  assumes "\<forall>x\<in>set xs. CHR '','' \<notin> set x"
  shows "tokens (join '','' xs) = filter (\<lambda>x. x \<noteq> []) (map trim xs)"
proof (cases "xs = []")
  case True
  then show ?thesis by (simp add: tokens_Nil)
next
  case False
  then have "split CHR '','' (join [CHR '',''] xs) = xs"
    using assms by (rule split_join)
  then show ?thesis by (simp add: tokens_def)
qed

lemma strip_brackets_bracketed: "strip_brackets (''['' @ s @ '']'') = s"
  by (simp add: strip_brackets_def startsWith_def endsWith_def)

lemma parse_existing_bracketed:
  assumes "\<forall>x\<in>set xs. CHR '','' \<notin> set x"
  shows "parse_existing (Some (''['' @ join '','' xs @ '']'')) = filter (\<lambda>x. x \<noteq> []) (map trim xs)"
proof -
  have "parse_existing (Some (''['' @ join '','' xs @ '']'')) = tokens (strip_brackets (''['' @ join '','' xs @ '']''))"
    by (simp add: parse_existing_def)
  then show ?thesis
    by (simp only: strip_brackets_bracketed tokens_comma_list [OF assms])
qed

text \<open>
  C4, as the code has it. The existing value is parsed into its trimmed, non-empty
  tokens and kept as it is, duplicates included: for a bracketed list of comma-free
  items the existing list is the items, trimmed, without the empty ones, in their
  order and as often as they occur; a missing or empty field gives the empty list. The
  new tokens are parsed the same way, and each one that is not yet in the list is
  appended, once, in the order of its first occurrence in the input. The result is
  written back as \<^verbatim>\<open>[t1, t2, ...]\<close>, the empty list as \<^verbatim>\<open>[]\<close>.
\<close>

theorem tags_block_spec:
  "tags_block (Str t) (flds, ch)
     = Inr (setField ''tags''
             (encode_tags (append_tags (parse_existing (getField ''tags'' flds)) (tokens t))) flds, True)
   \<and> append_tags (parse_existing (getField ''tags'' flds)) (tokens t)
       = parse_existing (getField ''tags'' flds)
         @ rev (remdups (rev (filter (\<lambda>x. x \<notin> set (parse_existing (getField ''tags'' flds)))
                                (tokens t))))
   \<and> (getField ''tags'' flds = None \<or> getField ''tags'' flds = Some []
        \<longrightarrow> parse_existing (getField ''tags'' flds) = [])
   \<and> ((\<forall>x \<in> set xs. CHR '','' \<notin> set x)
        \<and> getField ''tags'' flds = Some (''['' @ join '','' xs @ '']'')
        \<longrightarrow> parse_existing (getField ''tags'' flds) = filter (\<lambda>x. x \<noteq> []) (map trim xs))
   \<and> ((\<forall>y \<in> set ys. CHR '','' \<notin> set y) \<and> t = join '','' ys
        \<longrightarrow> tokens t = filter (\<lambda>x. x \<noteq> []) (map trim ys))
   \<and> (\<forall>x \<in> set (parse_existing (getField ''tags'' flds)) \<union> set (tokens t). x \<noteq> [] \<and> trim x = x)
   \<and> (\<exists>ys. append_tags (parse_existing (getField ''tags'' flds)) (tokens t)
               = parse_existing (getField ''tags'' flds) @ ys
            \<and> distinct ys
            \<and> set ys = set (tokens t) - set (parse_existing (getField ''tags'' flds))
            \<and> subseq ys (tokens t))
   \<and> encode_tags zs = ''['' @ join '', '' zs @ '']''
   \<and> encode_tags [] = ''[]''
   \<and> encode_tags [''t1'', ''t2'', ''t3''] = ''[t1, t2, t3]''"
proof -
  have a: "x \<noteq> [] \<and> trim x = x" if "x \<in> set (parse_existing e)" for x e
  proof (cases e)
    case None
    with that show ?thesis by (simp add: parse_existing_def)
  next
    case (Some v)
    with that have "x \<in> set (tokens (strip_brackets v))"
      by (cases "v = []") (simp_all add: parse_existing_def)
    then show ?thesis by (rule tokens_trimmed)
  qed
  have b: "\<forall>x \<in> set (parse_existing (getField ''tags'' flds)) \<union> set (tokens t). x \<noteq> [] \<and> trim x = x"
    using a tokens_trimmed by blast
  have c: "tags_block (Str t) (flds, ch)
     = Inr (setField ''tags''
             (encode_tags (append_tags (parse_existing (getField ''tags'' flds)) (tokens t))) flds, True)"
    by (simp add: tags_block_def)
  have d: "encode_tags [] = ''[]''" "encode_tags [''t1'', ''t2'', ''t3''] = ''[t1, t2, t3]''"
    "encode_tags zs = ''['' @ join '', '' zs @ '']''"
    by (simp_all add: encode_tags_def)
  have e: "getField ''tags'' flds = None \<or> getField ''tags'' flds = Some []
        \<longrightarrow> parse_existing (getField ''tags'' flds) = []"
    by (auto simp add: parse_existing_def)
  have f: "(\<forall>x \<in> set xs. CHR '','' \<notin> set x)
        \<and> getField ''tags'' flds = Some (''['' @ join '','' xs @ '']'')
        \<longrightarrow> parse_existing (getField ''tags'' flds) = filter (\<lambda>x. x \<noteq> []) (map trim xs)"
    using parse_existing_bracketed [of xs] by simp
  have g: "(\<forall>y \<in> set ys. CHR '','' \<notin> set y) \<and> t = join '','' ys
        \<longrightarrow> tokens t = filter (\<lambda>x. x \<noteq> []) (map trim ys)"
    using tokens_comma_list [of ys] by simp
  show ?thesis
    using b c d e f g append_tags_shape [of "parse_existing (getField ''tags'' flds)" "tokens t"]
      append_tags_exact [of "parse_existing (getField ''tags'' flds)" "tokens t"]
    by blast
qed

theorem tags_block_spec_witness:
  "tags_block (Str '' b,a, ,c,b'') ([KV ''tags'' ''[a, a]''], False)
     = Inr ([KV ''tags'' ''[a, a, b, c]''], True)
   \<and> getField ''tags'' [KV ''tags'' ''[a, a]''] = Some (''['' @ join '','' [''a'', '' a''] @ '']'')
   \<and> parse_existing (getField ''tags'' [KV ''tags'' ''[a, a]'']) = [''a'', ''a'']
   \<and> '' b,a, ,c,b'' = join '','' ['' b'', ''a'', '' '', ''c'', ''b'']
   \<and> tokens '' b,a, ,c,b'' = [''b'', ''a'', ''c'', ''b'']
   \<and> ''c'' \<noteq> [] \<and> trim ''c'' = ''c''
   \<and> getField ''tags'' [Raw ''''] = None
   \<and> parse_existing (getField ''tags'' [Raw '''']) = []
   \<and> tags_block (Str '' , '') ([Raw ''''], False) = Inr ([Raw '''', KV ''tags'' ''[]''], True)"
proof -
  let ?f = "[KV ''tags'' ''[a, a]'']" and ?t = "'' b,a, ,c,b''"
  let ?xs = "[''a'', '' a'']" and ?ys = "['' b'', ''a'', '' '', ''c'', ''b'']"
  have nx: "\<forall>x \<in> set ?xs. CHR '','' \<notin> set x" and ny: "\<forall>y \<in> set ?ys. CHR '','' \<notin> set y"
    by simp_all
  have gx: "getField ''tags'' ?f = Some (''['' @ join '','' ?xs @ '']'')" and jy: "?t = join '','' ?ys"
    by code_simp+
  have tx: "filter (\<lambda>x. x \<noteq> []) (map trim ?xs) = [''a'', ''a'']"
    and ty: "filter (\<lambda>x. x \<noteq> []) (map trim ?ys) = [''b'', ''a'', ''c'', ''b'']"
    by code_simp+
  have p: "parse_existing (getField ''tags'' ?f) = [''a'', ''a'']" "tokens ?t = [''b'', ''a'', ''c'', ''b'']"
    using tags_block_spec [of ?t ?f False ?xs ?ys] nx ny gx jy unfolding tx ty by blast+
  have e: "setField ''tags'' (encode_tags (append_tags [''a'', ''a''] [''b'', ''a'', ''c'', ''b''])) ?f
      = [KV ''tags'' ''[a, a, b, c]'']"
    by code_simp
  have gn: "getField ''tags'' [Raw ''''] = None"
    by code_simp
  have pn: "parse_existing (getField ''tags'' [Raw '''']) = []"
    using tags_block_spec [of "'' , ''" "[Raw '''']"] gn by blast
  have e2: "setField ''tags'' (encode_tags (append_tags [] (tokens '' , ''))) [Raw '''']
      = [Raw '''', KV ''tags'' ''[]'']"
    by code_simp
  have a: "tags_block (Str ?t) (?f, False) = Inr ([KV ''tags'' ''[a, a, b, c]''], True)
     \<and> ''c'' \<noteq> [] \<and> trim ''c'' = ''c''"
    using tags_block_spec [of ?t ?f False] e unfolding p by simp
  have b: "tags_block (Str '' , '') ([Raw ''''], False) = Inr ([Raw '''', KV ''tags'' ''[]''], True)"
    using tags_block_spec [of "'' , ''" "[Raw '''']" False] unfolding pn e2 by blast
  show ?thesis using a b gx p jy gn pn by blast
qed

text \<open>
  The claim as written fails for a list that already holds a token twice: the token
  is still there twice after the append.
\<close>

theorem existing_duplicates_counterexample:
  "parse_existing (getField ''tags'' [KV ''tags'' ''[a, a]'']) = [''a'', ''a'']
   \<and> tags_block (Str ''b'') ([KV ''tags'' ''[a, a]''], False) = Inr ([KV ''tags'' ''[a, a, b]''], True)
   \<and> count_list (parse_existing (Some ''[a, a, b]'')) ''a'' = 2"
  by code_simp

subsection \<open>Appending a description\<close>

lemma trimEnd_append:
  "trimEnd (a @ d) = (if list_all is_ws d then trimEnd a else a @ trimEnd d)"
  by (simp add: trimEnd_def dropWhile_append list_all_iff)

lemma trimEnd_append_ws: "list_all is_ws w \<Longrightarrow> trimEnd (a @ w) = trimEnd a"
  by (simp add: trimEnd_append)

lemma trimEnd_idem: "trimEnd (trimEnd s) = trimEnd s"
proof -
  obtain w where w: "s = trimEnd s @ w" "\<forall>c\<in>set w. is_ws c"
    using trimEnd_prefix [of s] by blast
  have "trimEnd (trimEnd s @ w) = trimEnd (trimEnd s)"
    using w(2) by (simp add: trimEnd_append list_all_iff)
  with w(1) show ?thesis by simp
qed

lemma trimEnd_all_ws: "list_all is_ws d \<Longrightarrow> trimEnd d = []"
  by (simp add: trimEnd_def list_all_iff)

lemma trimEnd_sandwich:
  "list_all is_ws n1 \<Longrightarrow> list_all is_ws n2 \<Longrightarrow>
   trimEnd (trimEnd b @ n2 @ d @ n1)
     = (if list_all is_ws d then trimEnd b else trimEnd b @ n2 @ trimEnd d)"
  by (simp add: trimEnd_append trimEnd_idem)

lemma description_block_twice:
  "description_block (Str d2) (description_block (Str d1) b)
     = (if list_all is_ws d1 then trimEnd b else trimEnd b @ ''\<newline>\<newline>'' @ trimEnd d1)
         @ ''\<newline>\<newline>'' @ d2 @ ''\<newline>''"
proof -
  have nl: "list_all is_ws ''\<newline>''" "list_all is_ws ''\<newline>\<newline>''"
    by (simp_all add: is_ws_def)
  have db: "description_block (Str d) x = trimEnd x @ ''\<newline>\<newline>'' @ d @ ''\<newline>''" for d x
    by (simp add: description_block_def)
  have tr: "trimEnd (trimEnd b @ ''\<newline>\<newline>'' @ d1 @ ''\<newline>'')
      = (if list_all is_ws d1 then trimEnd b else trimEnd b @ ''\<newline>\<newline>'' @ trimEnd d1)"
    using nl by (rule trimEnd_sandwich)
  show ?thesis by (simp only: db tr)
qed

lemma amend_description:
  "only_description text r \<Longrightarrow>
   amend s d f r fs body = write_back s f (serialize fs (description_block (Str text) body))"
  by (simp add: only_description_def amend_def replace_block_def parent_block_def tags_block_def
      Let_def)

lemma after_run_same:
  "findTicketsDir (after_run s out) = findTicketsDir s"
  "resolveTicket (after_run s out) d i = resolveTicket s d i"
  "basename_md (after_run s out) = basename_md s"
  "write_back (after_run s out) f c = write_back s f c"
  by (simp_all add: after_run_def findTicketsDir_def resolveTicket_def write_back_def Let_def
      cong: option.case_cong if_cong write_result.case_cong)

lemma after_run_read: "readFileSync (after_run s (Wrote f c m)) f = Some c"
  by (simp add: after_run_def)

text \<open>
  C8, as the code has it. Take two runs on the same ticket, one after the other, each
  asking only for a description, the write of the first one succeeding. The first
  writes the body without its trailing white space, two newlines, the text and one
  newline; the fields are as they were. The second reads that file back, trims again
  and hands the result to \<^verbatim>\<open>writeFileSync\<close>; trimming takes the trailing white space of
  the first text with it: a first text that is non-empty and does not end in white
  space stays whole, and the body is the original text, the first text and the second
  text with one blank line between them; a first text of white space only disappears.
\<close>

theorem description_twice:
  assumes "interpret_args args1 = Inr r1" and "only_description d1 r1"
    and "interpret_args args2 = Inr r2" and "only_description d2 r2"
    and "findTicketsDir s = Inr d"
    and "resolveTicket s d (to_string (id_arg r1)) = Inr f"
    and "resolveTicket s d (to_string (id_arg r2)) = Inr f"
    and "readFileSync s f = Some content" and "load content = Some (fm, body)"
    and "writeFileSync s f
           (serialize (parse_frontmatter fm) (trimEnd body @ ''\<newline>\<newline>'' @ d1 @ ''\<newline>'')) = WriteOk"
  shows "main s args1
           = Wrote f (serialize (parse_frontmatter fm) (trimEnd body @ ''\<newline>\<newline>'' @ d1 @ ''\<newline>''))
               (''Amended '' @ basename_md s f)
     \<and> main (after_run s (main s args1)) args2
           = write_back s f
               (serialize (parse_frontmatter fm)
                  ((if list_all is_ws d1 then trimEnd body
                    else trimEnd body @ ''\<newline>\<newline>'' @ trimEnd d1)
                   @ ''\<newline>\<newline>'' @ d2 @ ''\<newline>''))
     \<and> (d1 \<noteq> [] \<and> trimEnd d1 = d1 \<longrightarrow>
          main (after_run s (main s args1)) args2
            = write_back s f
                (serialize (parse_frontmatter fm)
                   (trimEnd body @ ''\<newline>\<newline>'' @ d1 @ ''\<newline>\<newline>'' @ d2 @ ''\<newline>'')))"
proof -
  let ?b1 = "description_block (Str d1) body"
  let ?c1 = "serialize (parse_frontmatter fm) ?b1"
  let ?m = "''Amended '' @ basename_md s f"
  let ?fm1 = "join ''\<newline>'' (map render (parse_frontmatter fm))"
  have b1: "?b1 = trimEnd body @ ''\<newline>\<newline>'' @ d1 @ ''\<newline>''"
    by (simp add: description_block_def)
  have "main s args1 = write_back s f ?c1"
    using main_amend [OF assms(1,5,6,8,9)] amend_description [OF assms(2)] by simp
  then have run1: "main s args1 = Wrote f ?c1 ?m"
    using assms(10) write_back_ok [of s f ?c1] by (simp only: b1)
  let ?s1 = "after_run s (main s args1)"
  have rd: "readFileSync ?s1 f = Some ?c1"
    unfolding run1 by (rule after_run_read)
  have ld: "load ?c1 = Some (?fm1, ?b1)" and pf: "parse_frontmatter ?fm1 = parse_frontmatter fm"
    using load_serialize [OF assms(9), of ?b1] by simp_all
  have "main ?s1 args2 = amend ?s1 d f r2 (parse_frontmatter ?fm1) ?b1"
    using assms(3,5,7) rd ld by (intro main_amend) (simp_all add: after_run_same)
  also have "\<dots> = write_back s f (serialize (parse_frontmatter fm) (description_block (Str d2) ?b1))"
    using amend_description [OF assms(4)] by (simp add: pf after_run_same)
  finally have run2: "main ?s1 args2
      = write_back s f (serialize (parse_frontmatter fm)
                   ((if list_all is_ws d1 then trimEnd body else trimEnd body @ ''\<newline>\<newline>'' @ trimEnd d1)
                    @ ''\<newline>\<newline>'' @ d2 @ ''\<newline>''))"
    by (simp only: description_block_twice)
  have three: "main ?s1 args2
      = write_back s f (serialize (parse_frontmatter fm)
                   (trimEnd body @ ''\<newline>\<newline>'' @ d1 @ ''\<newline>\<newline>'' @ d2 @ ''\<newline>''))"
    if "d1 \<noteq> []" "trimEnd d1 = d1"
  proof -
    have "\<not> list_all is_ws d1"
      using that trimEnd_all_ws [of d1] by auto
    then show ?thesis using that(2) by (simp add: run2)
  qed
  show ?thesis
    using run1 run2 three unfolding b1 by blast
qed

theorem description_twice_witness:
  "interpret_args [''ab-1234'', ''-d'', ''first''] = Inr (no_request\<lparr>id_arg := Str ''ab-1234'', description := Str ''first''\<rparr>)
   \<and> interpret_args [''1234'', ''--description'', ''second''] = Inr (no_request\<lparr>id_arg := Str ''1234'', description := Str ''second''\<rparr>)
   \<and> ''first'' \<noteq> [] \<and> trimEnd ''first'' = ''first''
   \<and> main (after_run (demo_sys None) (main (demo_sys None) [''ab-1234'', ''-d'', ''first'']))
        [''1234'', ''--description'', ''second'']
       = Wrote (Walked [''proj'', ''.tickets''], ''ab-1234.md'')
           ''---\<newline>id: ab-1234\<newline>status: open\<newline>deps: \<newline>  - cd-5678\<newline>priority: 2\<newline>tags: [backend, api]\<newline>---\<newline># Title\<newline>\<newline>Text\<newline>\<newline>first\<newline>\<newline>second\<newline>''
           ''Amended ab-1234''"
proof -
  let ?s = "demo_sys None" and ?d = "Walked [''proj'', ''.tickets'']"
  let ?a1 = "[''ab-1234'', ''-d'', ''first'']" and ?a2 = "[''1234'', ''--description'', ''second'']"
  let ?r1 = "no_request\<lparr>id_arg := Str ''ab-1234'', description := Str ''first''\<rparr>"
  let ?r2 = "no_request\<lparr>id_arg := Str ''1234'', description := Str ''second''\<rparr>"
  let ?fm = "''id: ab-1234\<newline>status: open\<newline>deps:\<newline>  - cd-5678\<newline>priority: 2\<newline>tags: [backend, api]''"
  let ?body = "''# Title\<newline>\<newline>Text\<newline>''"
  let ?o = "''---\<newline>id: ab-1234\<newline>status: open\<newline>deps: \<newline>  - cd-5678\<newline>priority: 2\<newline>tags: [backend, api]\<newline>---\<newline># Title\<newline>\<newline>Text\<newline>\<newline>first\<newline>\<newline>second\<newline>''"
  have i1: "interpret_args ?a1 = Inr ?r1" and i2: "interpret_args ?a2 = Inr ?r2"
    by code_simp+
  have o1: "only_description ''first'' ?r1" and o2: "only_description ''second'' ?r2"
    by code_simp+
  have fd: "findTicketsDir ?s = Inr ?d"
    by code_simp
  have r1: "resolveTicket ?s ?d (to_string (id_arg ?r1)) = Inr (?d, ''ab-1234.md'')"
    and r2: "resolveTicket ?s ?d (to_string (id_arg ?r2)) = Inr (?d, ''ab-1234.md'')"
    by code_simp+
  have rf: "readFileSync ?s (?d, ''ab-1234.md'') = Some (snd (hd demo_files))"
    by code_simp
  have ld: "load (snd (hd demo_files)) = Some (?fm, ?body)"
    by code_simp
  have w1: "writeFileSync ?s (?d, ''ab-1234.md'')
      (serialize (parse_frontmatter ?fm) (trimEnd ?body @ ''\<newline>\<newline>'' @ ''first'' @ ''\<newline>'')) = WriteOk"
    by (simp add: demo_sys_def)
  have h: "''first'' \<noteq> [] \<and> trimEnd ''first'' = ''first''"
    by code_simp
  have e: "serialize (parse_frontmatter ?fm)
       (trimEnd ?body @ ''\<newline>\<newline>'' @ ''first'' @ ''\<newline>\<newline>'' @ ''second'' @ ''\<newline>'') = ?o"
    by code_simp
  have wb: "write_back ?s (?d, ''ab-1234.md'') ?o = Wrote (?d, ''ab-1234.md'') ?o ''Amended ab-1234''"
    by code_simp
  have "main (after_run ?s (main ?s ?a1)) ?a2 = Wrote (?d, ''ab-1234.md'') ?o ''Amended ab-1234''"
    using description_twice [OF i1 o1 i2 o2 fd r1 r2 rf ld w1] h unfolding e wb by blast
  then show ?thesis using i1 i2 h by blast
qed

text \<open>
  The claim as written fails for a first text that ends in white space, which the
  second append cuts, and for an empty first text, of which nothing stays.
\<close>

theorem description_twice_counterexample:
  "main (after_run (demo_sys None) (main (demo_sys None) [''ab-1234'', ''-d'', ''first '']))
        [''ab-1234'', ''-d'', ''second'']
       = Wrote (Walked [''proj'', ''.tickets''], ''ab-1234.md'')
           ''---\<newline>id: ab-1234\<newline>status: open\<newline>deps: \<newline>  - cd-5678\<newline>priority: 2\<newline>tags: [backend, api]\<newline>---\<newline># Title\<newline>\<newline>Text\<newline>\<newline>first\<newline>\<newline>second\<newline>''
           ''Amended ab-1234''
   \<and> \<not> includes_str
         ''---\<newline>id: ab-1234\<newline>status: open\<newline>deps: \<newline>  - cd-5678\<newline>priority: 2\<newline>tags: [backend, api]\<newline>---\<newline># Title\<newline>\<newline>Text\<newline>\<newline>first\<newline>\<newline>second\<newline>''
         ''first ''
   \<and> description_block (Str ''second'') (description_block (Str '''') ''Text\<newline>'')
     = ''Text\<newline>\<newline>second\<newline>''"
  by code_simp

section \<open>Properties of the whole run\<close>

lemma interpret_args_calls: "interpret_args args = Inl out \<Longrightarrow> write_calls out = []"
  by (auto simp add: interpret_args_def split: if_splits sum.splits)

lemma parent_block_calls: "parent_block s d v st = Inl out \<Longrightarrow> write_calls out = []"
  by (auto simp add: parent_block_def split: prod.splits jsval.splits sum.splits)

lemma tags_block_calls: "tags_block v st = Inl out \<Longrightarrow> write_calls out = []"
  by (auto simp add: tags_block_def split: prod.splits jsval.splits)

lemma write_back_calls: "write_calls (write_back s f c) = [(f, c)]"
  by (simp add: write_back_def split: write_result.splits)

lemma replace_block_changed:
  "replace_block k v (flds, ch) = (flds', ch') \<Longrightarrow> ch' \<Longrightarrow> ch \<or> v \<noteq> Null"
  by (auto simp add: replace_block_def split: if_splits)

lemma parent_block_changed:
  "parent_block s d v (flds, ch) = Inr (flds', ch') \<Longrightarrow> ch' \<Longrightarrow> ch \<or> v \<noteq> Null"
  by (auto simp add: parent_block_def split: jsval.splits sum.splits)

lemma tags_block_changed:
  "tags_block v (flds, ch) = Inr (flds', ch') \<Longrightarrow> ch' \<Longrightarrow> ch \<or> v \<noteq> Null"
  by (auto simp add: tags_block_def split: jsval.splits)

lemma amend_no_options: "no_options r \<Longrightarrow> amend s d f r fs b = Fatal NothingToAmend"
  by (simp add: no_options_def amend_def replace_block_def parent_block_def tags_block_def)

lemma amend_cases:
  "write_calls (amend s d f r fs b) = []
   \<or> (\<exists>flds. \<not> no_options r
         \<and> amend s d f r fs b
             = write_back s f (serialize flds (description_block (description r) b)))"
proof -
  obtain f4 c4 where st4: "replace_block ''external-ref'' (externalRef r)
      (replace_block ''assignee'' (assignee r)
        (replace_block ''priority'' (priority r)
          (replace_block ''type'' (type_arg r) (fs, False)))) = (f4, c4)"
    by (cases "replace_block ''external-ref'' (externalRef r)
      (replace_block ''assignee'' (assignee r)
        (replace_block ''priority'' (priority r)
          (replace_block ''type'' (type_arg r) (fs, False))))") blast
  then have c4: "c4 \<longrightarrow> type_arg r \<noteq> Null \<or> priority r \<noteq> Null \<or> assignee r \<noteq> Null \<or> externalRef r \<noteq> Null"
    by (auto simp add: replace_block_def split: if_splits)
  show ?thesis
  proof (cases "parent_block s d (parent r) (f4, c4)")
    case (Inl out)
    then have "amend s d f r fs b = out"
      by (simp add: amend_def st4)
    then show ?thesis using parent_block_calls [OF Inl] by simp
  next
    case (Inr st5)
    obtain f5 c5 where s5: "st5 = (f5, c5)" by (cases st5) blast
    have c5: "c5 \<longrightarrow> c4 \<or> parent r \<noteq> Null"
      using parent_block_changed [of s d "parent r" f4 c4 f5 c5] Inr s5 by blast
    show ?thesis
    proof (cases "tags_block (tags r) (f5, c5)")
      case (Inl out)
      then have "amend s d f r fs b = out"
        using Inr s5 by (simp add: amend_def st4)
      then show ?thesis using tags_block_calls [OF Inl] by simp
    next
      case in6: (Inr st6)
      obtain f6 c6 where s6: "st6 = (f6, c6)" by (cases st6) blast
      have c6: "c6 \<longrightarrow> c5 \<or> tags r \<noteq> Null"
        using tags_block_changed [of "tags r" f5 c5 f6 c6] in6 s6 by blast
      have am: "amend s d f r fs b
          = (if \<not> (c6 \<or> description r \<noteq> Null) then Fatal NothingToAmend
             else write_back s f (serialize f6 (description_block (description r) b)))"
        using Inr s5 in6 s6 by (simp add: amend_def st4 Let_def)
      show ?thesis
      proof (cases "c6 \<or> description r \<noteq> Null")
        case True
        then have "\<not> no_options r"
          using c4 c5 c6 by (auto simp add: no_options_def)
        with am True show ?thesis by auto
      next
        case False
        with am show ?thesis by simp
      qed
    qed
  qed
qed

text \<open>
  C7, as the code has it. A request with no amending option, on a ticket that resolves
  and loads, ends with ``Nothing to amend'': \<^verbatim>\<open>writeFileSync\<close> is not called and the file
  is as it was. A run calls \<^verbatim>\<open>writeFileSync\<close> only when the arguments, the directory,
  the ticket, its content and its frontmatter were all found good and some option was
  given; it calls it once, on the resolved file, with the whole serialized content.
  Every error that the script reports itself therefore comes before the write. The
  write is not guarded: when it succeeds the run reports the ticket and exits 0, when
  it fails the run exits 1, and the file is then as it was or holds what the failed
  call left in it. A run that exits non-zero and still changed the file is a run whose
  write failed half-way.
\<close>

theorem nothing_to_amend:
  "(interpret_args args = Inr r \<and> no_options r
      \<and> findTicketsDir s = Inr d \<and> resolveTicket s d (to_string (id_arg r)) = Inr f
      \<and> readFileSync s f = Some c \<and> load c = Some (fm, b)
     \<longrightarrow> main s args = Fatal NothingToAmend \<and> write_calls (main s args) = []
         \<and> writes (main s args) = [])
   \<and> (write_calls (main s args) \<noteq> [] \<longrightarrow>
        (\<exists>r d f c fm b flds.
           interpret_args args = Inr r \<and> \<not> no_options r
           \<and> findTicketsDir s = Inr d \<and> resolveTicket s d (to_string (id_arg r)) = Inr f
           \<and> readFileSync s f = Some c \<and> load c = Some (fm, b)
           \<and> main s args
               = (case writeFileSync s f (serialize flds (description_block (description r) b)) of
                    WriteOk \<Rightarrow>
                      Wrote f (serialize flds (description_block (description r) b))
                        (''Amended '' @ basename_md s f)
                  | WriteFails left \<Rightarrow>
                      WriteFailed f (serialize flds (description_block (description r) b)) left)))
   \<and> (exit_status (main s args) \<noteq> 0 \<and> writes (main s args) \<noteq> [] \<longrightarrow>
        (\<exists>f c p. write_calls (main s args) = [(f, c)] \<and> writeFileSync s f c = WriteFails (Some p)
           \<and> writes (main s args) = [(f, p)]))"
proof -
  have one: "main s args = Fatal NothingToAmend \<and> write_calls (main s args) = []
      \<and> writes (main s args) = []"
    if "interpret_args args = Inr r" "no_options r" "findTicketsDir s = Inr d"
      "resolveTicket s d (to_string (id_arg r)) = Inr f" "readFileSync s f = Some c"
      "load c = Some (fm, b)"
    using main_amend [OF that(1,3,4,5,6)] amend_no_options [OF that(2)] by simp
  have two: "\<exists>r d f c fm b flds.
           interpret_args args = Inr r \<and> \<not> no_options r
           \<and> findTicketsDir s = Inr d \<and> resolveTicket s d (to_string (id_arg r)) = Inr f
           \<and> readFileSync s f = Some c \<and> load c = Some (fm, b)
           \<and> main s args = write_back s f (serialize flds (description_block (description r) b))"
    if w: "write_calls (main s args) \<noteq> []"
  proof (cases "interpret_args args")
    case (Inl out)
    then have "main s args = out" by (simp add: main_def)
    with w interpret_args_calls [OF Inl] show ?thesis by simp
  next
    case (Inr r)
    show ?thesis
    proof (cases "findTicketsDir s")
      case (Inl e)
      with Inr have "main s args = Fatal e" by (simp add: main_def)
      with w show ?thesis by simp
    next
      case fd: (Inr d)
      show ?thesis
      proof (cases "resolveTicket s d (to_string (id_arg r))")
        case (Inl e)
        with Inr fd have "main s args = Fatal e" by (simp add: main_def)
        with w show ?thesis by simp
      next
        case rt: (Inr f)
        show ?thesis
        proof (cases "readFileSync s f")
          case None
          with Inr fd rt have "main s args = Crash" by (simp add: main_def)
          with w show ?thesis by simp
        next
          case (Some c)
          show ?thesis
          proof (cases "load c")
            case None
            with Inr fd rt Some have "main s args = Fatal NoFrontmatter" by (simp add: main_def)
            with w show ?thesis by simp
          next
            case ld: (Some p)
            obtain fm b where p: "p = (fm, b)" by (cases p) blast
            have m: "main s args = amend s d f r (parse_frontmatter fm) b"
              using Inr fd rt Some ld p by (intro main_amend) simp_all
            with w amend_cases [of s d f r "parse_frontmatter fm" b]
            obtain flds where "\<not> no_options r"
              "main s args = write_back s f (serialize flds (description_block (description r) b))"
              by auto
            with Inr fd rt Some ld p show ?thesis by blast
          qed
        qed
      qed
    qed
  qed
  have three: "\<exists>f c p. write_calls (main s args) = [(f, c)] \<and> writeFileSync s f c = WriteFails (Some p)
           \<and> writes (main s args) = [(f, p)]"
    if e: "exit_status (main s args) \<noteq> 0" and ws: "writes (main s args) \<noteq> []"
  proof -
    from ws have "write_calls (main s args) \<noteq> []"
      by (cases "main s args") auto
    from two [OF this] obtain f c where m: "main s args = write_back s f c" by blast
    show ?thesis
    proof (cases "writeFileSync s f c")
      case WriteOk
      with m e show ?thesis by (simp add: write_back_def)
    next
      case (WriteFails left)
      with m ws obtain p where "left = Some p"
        by (cases left) (auto simp add: write_back_def)
      with m WriteFails show ?thesis by (simp add: write_back_def)
    qed
  qed
  show ?thesis
    using one two three unfolding write_back_def by blast
qed

theorem nothing_to_amend_witness:
  "interpret_args [''ab-1234'', ''extra''] = Inr (no_request\<lparr>id_arg := Str ''ab-1234''\<rparr>)
   \<and> no_options (no_request\<lparr>id_arg := Str ''ab-1234''\<rparr>)
   \<and> main (demo_sys None) [''ab-1234'', ''extra''] = Fatal NothingToAmend
   \<and> write_calls (main (demo_sys None) [''ab-1234'', ''extra'']) = []
   \<and> writes (main (demo_sys None) [''ab-1234'', ''extra'']) = []
   \<and> exit_status (main (demo_sys None) [''ab-1234'', ''extra'']) \<noteq> 0
   \<and> write_calls (main (demo_sys None) [''ab-1234'', ''-a'', ''sam'']) \<noteq> []
   \<and> (\<exists>flds. main (demo_sys None) [''ab-1234'', ''-a'', ''sam'']
         = Wrote (Walked [''proj'', ''.tickets''], ''ab-1234.md'')
             (serialize flds ''# Title\<newline>\<newline>Text\<newline>'') ''Amended ab-1234'')"
proof -
  let ?s = "demo_sys None" and ?d = "Walked [''proj'', ''.tickets'']"
  let ?r = "no_request\<lparr>id_arg := Str ''ab-1234''\<rparr>"
  let ?b = "''# Title\<newline>\<newline>Text\<newline>''"
  have ia: "interpret_args [''ab-1234'', ''extra''] = Inr ?r"
    by code_simp
  have nulls: "no_options ?r"
    by (simp add: no_request_def no_options_def)
  have fd: "findTicketsDir ?s = Inr ?d"
    by code_simp
  have rp: "resolveTicket ?s ?d (to_string (id_arg ?r)) = Inr (?d, ''ab-1234.md'')"
    by code_simp
  have rf: "readFileSync ?s (?d, ''ab-1234.md'') = Some (snd (hd demo_files))"
    by code_simp
  have ld: "load (snd (hd demo_files))
      = Some (''id: ab-1234\<newline>status: open\<newline>deps:\<newline>  - cd-5678\<newline>priority: 2\<newline>tags: [backend, api]'', ?b)"
    by code_simp
  have a: "main ?s [''ab-1234'', ''extra''] = Fatal NothingToAmend"
    using nothing_to_amend [of "[''ab-1234'', ''extra'']" ?r ?s ?d "(?d, ''ab-1234.md'')"
        "snd (hd demo_files)"] ia nulls fd rp rf ld
    by simp
  let ?a2 = "[''ab-1234'', ''-a'', ''sam'']"
  let ?r2 = "no_request\<lparr>id_arg := Str ''ab-1234'', assignee := Str ''sam''\<rparr>"
  have wc: "write_calls (main ?s ?a2) \<noteq> []"
    by code_simp
  have ia2: "interpret_args ?a2 = Inr ?r2"
    by code_simp
  have rp2: "resolveTicket ?s ?d (to_string (id_arg ?r2)) = Inr (?d, ''ab-1234.md'')"
    by code_simp
  from nothing_to_amend [of ?a2 _ ?s] wc
  obtain r d f c fm b flds where
    h: "interpret_args ?a2 = Inr r" "findTicketsDir ?s = Inr d"
      "resolveTicket ?s d (to_string (id_arg r)) = Inr f"
      "readFileSync ?s f = Some c" "load c = Some (fm, b)"
    and m: "main ?s ?a2
               = (case writeFileSync ?s f (serialize flds (description_block (description r) b)) of
                    WriteOk \<Rightarrow>
                      Wrote f (serialize flds (description_block (description r) b))
                        (''Amended '' @ basename_md ?s f)
                  | WriteFails left \<Rightarrow>
                      WriteFailed f (serialize flds (description_block (description r) b)) left)"
    by blast
  from h(1) ia2 have r: "r = ?r2" by simp
  from h(2) fd have d: "d = ?d" by simp
  from h(3) rp2 r d have f: "f = (?d, ''ab-1234.md'')" by simp
  from h(4) rf f have c: "c = snd (hd demo_files)" by simp
  from h(5) ld c have b: "b = ?b" by simp
  have w: "writeFileSync ?s g x = WriteOk" for g x
    by (simp add: demo_sys_def)
  have dn: "description_block (description ?r2) ?b = ?b"
    by (simp add: description_block_def no_request_def)
  have bn: "basename_md ?s (?d, ''ab-1234.md'') = ''ab-1234''"
    by code_simp
  have "main ?s ?a2 = Wrote (?d, ''ab-1234.md'') (serialize flds ?b) ''Amended ab-1234''"
    using m unfolding w r f b dn bn by simp
  then have e: "\<exists>flds. main ?s ?a2 = Wrote (?d, ''ab-1234.md'') (serialize flds ?b) ''Amended ab-1234''"
    by blast
  show ?thesis using ia nulls a wc e by simp
qed

text \<open>
  The claim as written fails where it excludes a partial state. On a disk that is
  full the call of \<^verbatim>\<open>writeFileSync\<close> empties the ticket file and then throws: the run
  exits 1, and the file holds neither its old content nor the new one.
\<close>

theorem failing_write_counterexample:
  "readFileSync full_disk_sys (Walked [''proj'', ''.tickets''], ''ab-1234.md'')
     = Some ''---\<newline>id: ab-1234\<newline>status: open\<newline>deps:\<newline>  - cd-5678\<newline>priority: 2\<newline>tags: [backend, api]\<newline>---\<newline># Title\<newline>\<newline>Text\<newline>''
   \<and> main full_disk_sys [''ab-1234'', ''-t'', ''bug'']
       = WriteFailed (Walked [''proj'', ''.tickets''], ''ab-1234.md'')
           ''---\<newline>id: ab-1234\<newline>status: open\<newline>deps: \<newline>  - cd-5678\<newline>priority: 2\<newline>tags: [backend, api]\<newline>type: bug\<newline>---\<newline># Title\<newline>\<newline>Text\<newline>''
           (Some [])
   \<and> exit_status (main full_disk_sys [''ab-1234'', ''-t'', ''bug'']) = 1
   \<and> writes (main full_disk_sys [''ab-1234'', ''-t'', ''bug''])
       = [((Walked [''proj'', ''.tickets''], ''ab-1234.md''), [])]
   \<and> readFileSync (after_run full_disk_sys (main full_disk_sys [''ab-1234'', ''-t'', ''bug'']))
         (Walked [''proj'', ''.tickets''], ''ab-1234.md'')
       = Some []"
  by code_simp

end
